theory Spec2Isabelle
  imports Complex_Main
begin

section \<open>Regular expressions as used by the formatter\<close>

text \<open>
  The formatter (package \<^verbatim>\<open>formatter\<close>, file \<^verbatim>\<open>src/unnamed/part_001\<close>) is driven by
  about 35 regular expressions compiled with Go's \<^verbatim>\<open>regexp\<close> package.  Go matches
  leftmost-first: of all matches that start earliest it returns the one a backtracking
  search finds first, with the submatches of that search.  The embedding therefore
  contains the patterns as syntax trees and a backtracking matcher over them.

  A character of the model is one byte, and the model is exact for ASCII text (MATLAB
  source); a byte outside ASCII is treated as one character that is neither a space
  nor a word character.  The classes are Go's: \<^verbatim>\<open>\s\<close> is tab, newline, form feed, carriage
  return and space; \<^verbatim>\<open>\w\<close> is a letter, a digit or the underscore; \<^verbatim>\<open>.\<close> is every character
  but the newline; \<^verbatim>\<open>^\<close> and \<^verbatim>\<open>$\<close> are the beginning and the end of the text.
\<close>

datatype cls = Dot | Lit char | OneOf string | NoneOf string
  | Space | NSpace | Word | NWord | Digit

definition is_space :: "char \<Rightarrow> bool" where
  "is_space c = (c \<in> set [CHR 0x09, CHR 0x0A, CHR 0x0C, CHR 0x0D, CHR '' ''])"

definition is_digit :: "char \<Rightarrow> bool" where
  "is_digit c = (let n = of_char c :: nat in 48 \<le> n \<and> n \<le> 57)"

definition is_word :: "char \<Rightarrow> bool" where
  "is_word c = (let n = of_char c :: nat in
     (48 \<le> n \<and> n \<le> 57) \<or> (65 \<le> n \<and> n \<le> 90) \<or> n = 95 \<or> (97 \<le> n \<and> n \<le> 122))"

fun cls_ok :: "cls \<Rightarrow> char \<Rightarrow> bool" where
  "cls_ok Dot c = (c \<noteq> CHR 0x0A)"
| "cls_ok (Lit d) c = (c = d)"
| "cls_ok (OneOf ds) c = (c \<in> set ds)"
| "cls_ok (NoneOf ds) c = (c \<notin> set ds)"
| "cls_ok Space c = is_space c"
| "cls_ok NSpace c = (\<not> is_space c)"
| "cls_ok Word c = is_word c"
| "cls_ok NWord c = (\<not> is_word c)"
| "cls_ok Digit c = is_digit c"

text \<open>
  \<open>Star\<close> is the greedy \<^verbatim>\<open>*\<close>, \<open>LStar\<close> the lazy \<^verbatim>\<open>*?\<close>, \<open>Grp i\<close> the \<open>i\<close>-th capturing group,
  \<open>Bol\<close> and \<open>Eol\<close> the anchors \<^verbatim>\<open>^\<close> and \<^verbatim>\<open>$\<close>.
\<close>

datatype rx = C cls | Emp | Bol | Eol | Seq rx rx | Alt rx rx | Star rx | LStar rx | Grp nat rx

type_synonym caps = "nat \<rightharpoonup> string"

text \<open>
  The matcher, in continuation-passing style: \<open>bt r b s cs k\<close> matches \<open>r\<close> at the head of
  the rest \<open>s\<close> of the text (\<open>b\<close> says whether \<open>s\<close> is the whole text), with the submatches
  \<open>cs\<close> found so far, and hands the rest to \<open>k\<close>; when \<open>k\<close> fails the next alternative is
  tried, in the order of a backtracking search.  An iteration of a star has to consume
  a character (every starred expression of the formatter does).
\<close>

fun bt :: "rx \<Rightarrow> bool \<Rightarrow> string \<Rightarrow> caps \<Rightarrow> (bool \<Rightarrow> string \<Rightarrow> caps \<Rightarrow> 'r option) \<Rightarrow> 'r option" where
  "bt (C c) b s cs k =
     (case s of [] \<Rightarrow> None | x # xs \<Rightarrow> if cls_ok c x then k False xs cs else None)"
| "bt Emp b s cs k = k b s cs"
| "bt Bol b s cs k = (if b then k b s cs else None)"
| "bt Eol b s cs k = (if s = [] then k b s cs else None)"
| "bt (Seq r1 r2) b s cs k = bt r1 b s cs (\<lambda>b' s' cs'. bt r2 b' s' cs' k)"
| "bt (Alt r1 r2) b s cs k =
     (case bt r1 b s cs k of Some x \<Rightarrow> Some x | None \<Rightarrow> bt r2 b s cs k)"
| "bt (Star r) b s cs k =
     (case bt r b s cs
             (\<lambda>b' s' cs'. if length s' < length s then bt (Star r) b' s' cs' k else None) of
        Some x \<Rightarrow> Some x
      | None \<Rightarrow> k b s cs)"
| "bt (LStar r) b s cs k =
     (case k b s cs of
        Some x \<Rightarrow> Some x
      | None \<Rightarrow> bt r b s cs
             (\<lambda>b' s' cs'. if length s' < length s then bt (LStar r) b' s' cs' k else None))"
| "bt (Grp i r) b s cs k =
     bt r b s cs (\<lambda>b' s' cs'. k b' s' (cs'(i \<mapsto> take (length s - length s') s)))"

text \<open>
  \<^verbatim>\<open>FindStringSubmatch\<close> tries the start positions from left to right and returns the
  submatches of the first match (\<open>None\<close> is Go's \<^verbatim>\<open>nil\<close>); \<^verbatim>\<open>MatchString\<close> says whether
  there is one.  A group that took no part in the match reads as the empty string.
\<close>

fun rx_find_from :: "rx \<Rightarrow> bool \<Rightarrow> string \<Rightarrow> caps option" where
  "rx_find_from r b s =
     (case bt r b s Map.empty (\<lambda>b' s' cs. Some cs) of
        Some cs \<Rightarrow> Some cs
      | None \<Rightarrow> (case s of [] \<Rightarrow> None | x # xs \<Rightarrow> rx_find_from r False xs))"

definition FindStringSubmatch :: "rx \<Rightarrow> string \<Rightarrow> caps option" where
  "FindStringSubmatch r s = rx_find_from r True s"

definition MatchString :: "rx \<Rightarrow> string \<Rightarrow> bool" where
  "MatchString r s = (FindStringSubmatch r s \<noteq> None)"

definition grp :: "caps \<Rightarrow> nat \<Rightarrow> string" where
  "grp m i = (case m i of None \<Rightarrow> [] | Some w \<Rightarrow> w)"

text \<open>
  \<open>submatch r s i\<close> is \<^verbatim>\<open>m[i]\<close> for \<^verbatim>\<open>m := r.FindStringSubmatch(s)\<close>, read where the source
  has found \<^verbatim>\<open>m\<close> not to be \<^verbatim>\<open>nil\<close>.
\<close>

definition submatch :: "rx \<Rightarrow> string \<Rightarrow> nat \<Rightarrow> string" where
  "submatch r s i = (case FindStringSubmatch r s of None \<Rightarrow> [] | Some m \<Rightarrow> grp m i)"

subsection \<open>Notation for writing the patterns\<close>

fun lit :: "string \<Rightarrow> rx" where
  "lit [] = Emp"
| "lit [c] = C (Lit c)"
| "lit (c # cs) = Seq (C (Lit c)) (lit cs)"

fun seqs :: "rx list \<Rightarrow> rx" where
  "seqs [] = Emp"
| "seqs [r] = r"
| "seqs (r # rs) = Seq r (seqs rs)"

fun alts :: "rx list \<Rightarrow> rx" where
  "alts [] = C (OneOf [])"
| "alts [r] = r"
| "alts (r # rs) = Alt r (alts rs)"

definition Plus :: "rx \<Rightarrow> rx" where "Plus r = Seq r (Star r)"
definition Opt :: "rx \<Rightarrow> rx" where "Opt r = Alt r Emp"
definition kws :: "string list \<Rightarrow> rx" where "kws ws = alts (map lit ws)"
definition chs :: "string \<Rightarrow> rx" where "chs s = C (OneOf s)"

definition ws_chars :: string where
  "ws_chars = [CHR 0x09, CHR 0x0A, CHR 0x0C, CHR 0x0D, CHR '' '']"

abbreviation sp :: rx where "sp \<equiv> C Space"
abbreviation nsp :: rx where "nsp \<equiv> C NSpace"
abbreviation dot :: rx where "dot \<equiv> C Dot"

section \<open>The patterns of \<^verbatim>\<open>New\<close>\<close>

text \<open>
  Each constant is the field of the same name that \<^verbatim>\<open>New\<close> compiles; the Go source of the
  pattern stands before it.

  \<^verbatim>\<open>ctrl1Line: ^(\s*)(if|while|for|try)(\W\s*\S.*\W)((end|endif|endwhile|endfor);?)(\s+\S.*|\s*$)\<close>

  \<^verbatim>\<open>fcnStart: ^(\s*)(function|classdef)\s*(\W\s*\S.*|\s*$)\<close>

  \<^verbatim>\<open>ctrlStart: ^(\s*)(if|while|for|parfor|try|methods|properties|events|arguments|enumeration|spmd)\s*(\W\s*\S.*|\s*$)\<close>

  \<^verbatim>\<open>ctrlIgnore: ^(\s*)(import|clear|clearvars)(.*$)\<close>

  \<^verbatim>\<open>ctrlStartSwitch: ^(\s*)(switch)\s*(\W\s*\S.*|\s*$)\<close>

  \<^verbatim>\<open>ctrlCont: ^(\s*)(elseif|else|case|otherwise|catch)\s*(\W\s*\S.*|\s*$)\<close>

  \<^verbatim>\<open>ctrlEnd: ^(\s*)((end|endfunction|endif|endwhile|endfor|endswitch);?)(\s+\S.*|\s*$)\<close>
\<close>

definition tail3 :: rx where
  "tail3 = Alt (seqs [C NWord, Star sp, nsp, Star dot]) (Seq (Star sp) Eol)"

definition ctrl1Line :: rx where
  "ctrl1Line = seqs [Bol, Grp 1 (Star sp), Grp 2 (kws [''if'', ''while'', ''for'', ''try'']),
     Grp 3 (seqs [C NWord, Star sp, nsp, Star dot, C NWord]),
     Grp 4 (Seq (Grp 5 (kws [''end'', ''endif'', ''endwhile'', ''endfor''])) (Opt (lit '';''))),
     Grp 6 (Alt (seqs [Plus sp, nsp, Star dot]) (Seq (Star sp) Eol))]"

definition fcnStart :: rx where
  "fcnStart = seqs [Bol, Grp 1 (Star sp), Grp 2 (kws [''function'', ''classdef'']), Star sp,
     Grp 3 tail3]"

definition ctrlStart :: rx where
  "ctrlStart = seqs [Bol, Grp 1 (Star sp),
     Grp 2 (kws [''if'', ''while'', ''for'', ''parfor'', ''try'', ''methods'', ''properties'',
                 ''events'', ''arguments'', ''enumeration'', ''spmd'']),
     Star sp, Grp 3 tail3]"

definition ctrlIgnore :: rx where
  "ctrlIgnore = seqs [Bol, Grp 1 (Star sp), Grp 2 (kws [''import'', ''clear'', ''clearvars'']),
     Grp 3 (Seq (Star dot) Eol)]"

definition ctrlStartSwitch :: rx where
  "ctrlStartSwitch = seqs [Bol, Grp 1 (Star sp), Grp 2 (lit ''switch''), Star sp, Grp 3 tail3]"

definition ctrlCont :: rx where
  "ctrlCont = seqs [Bol, Grp 1 (Star sp),
     Grp 2 (kws [''elseif'', ''else'', ''case'', ''otherwise'', ''catch'']), Star sp, Grp 3 tail3]"

definition ctrlEnd :: rx where
  "ctrlEnd = seqs [Bol, Grp 1 (Star sp),
     Grp 2 (Seq (Grp 3 (kws [''end'', ''endfunction'', ''endif'', ''endwhile'', ''endfor'',
                             ''endswitch'']))
                (Opt (lit '';''))),
     Grp 4 (Alt (seqs [Plus sp, nsp, Star dot]) (Seq (Star sp) Eol))]"

text \<open>
  \<^verbatim>\<open>lineComment: ^(\s*)%.*$\<close>

  \<^verbatim>\<open>ellipsis: ^.*\.\.\..*$\<close>

  \<^verbatim>\<open>blockCommentOpen: ^(\s*)%\{\s*$\<close>

  \<^verbatim>\<open>blockCommentClose: ^(\s*)%\}\s*$\<close>

  \<^verbatim>\<open>blockClose: ^\s*[\)\]\}].*$\<close>

  \<^verbatim>\<open>ignoreCommand: ^.*formatter\s+ignore\s+(\d*).*$\<close>

  \<^verbatim>\<open>initialIndent: ^(\s*)(.*)$\<close>
\<close>

definition lineComment :: rx where
  "lineComment = seqs [Bol, Grp 1 (Star sp), lit ''%'', Star dot, Eol]"

definition ellipsis :: rx where
  "ellipsis = seqs [Bol, Star dot, lit ''...'', Star dot, Eol]"

definition blockCommentOpen :: rx where
  "blockCommentOpen = seqs [Bol, Grp 1 (Star sp), lit ''%{'', Star sp, Eol]"

definition blockCommentClose :: rx where
  "blockCommentClose = seqs [Bol, Grp 1 (Star sp), lit ''%}'', Star sp, Eol]"

definition blockClose :: rx where
  "blockClose = seqs [Bol, Star sp, chs '')]}'', Star dot, Eol]"

definition ignoreCommand :: rx where
  "ignoreCommand = seqs [Bol, Star dot, lit ''formatter'', Plus sp, lit ''ignore'', Plus sp,
     Grp 1 (Star (C Digit)), Star dot, Eol]"

definition initialIndent :: rx where
  "initialIndent = seqs [Bol, Grp 1 (Star sp), Grp 2 (Star dot), Eol]"

text \<open>
  The patterns of the token extractor.  The single quote is \<open>CHR 0x27\<close>, the double
  quote \<open>CHR 0x22\<close>, the backslash \<open>CHR 0x5C\<close>.

  \<^verbatim>\<open>pString: ^(.*?[\(\[\{,;=\+\-\*\/\|\&\s]|^)\s*(\'([^\']|\'\')+\')([\)\}\]\+\-\*\/=\|\&,;].*|\s+.*|$)\<close>

  \<^verbatim>\<open>pStringDQ: ^(.*?[\(\[\{,;=\+\-\*\/\|\&\s]|^)\s*(\"([^\"])*\")([\)\}\]\+\-\*\/=\|\&,;].*|\s+.*|$)\<close>

  \<^verbatim>\<open>pComment: ^(.*\S|^)\s*(%.*)\<close>

  \<^verbatim>\<open>pBlank: ^\s+$\<close>
\<close>

definition strLead :: rx where
  "strLead = Alt (Seq (LStar dot) (chs (''([{,;=+-*/|&'' @ ws_chars))) Bol"

definition strTail :: rx where
  "strTail = alts [Seq (chs '')}]+-*/=|&,;'') (Star dot), Seq (Plus sp) (Star dot), Eol]"

definition pString :: rx where
  "pString = seqs [Bol, Grp 1 strLead, Star sp,
     Grp 2 (seqs [C (Lit (CHR 0x27)),
                  Plus (Grp 3 (Alt (C (NoneOf [CHR 0x27])) (lit [CHR 0x27, CHR 0x27]))),
                  C (Lit (CHR 0x27))]),
     Grp 4 strTail]"

definition pStringDQ :: rx where
  "pStringDQ = seqs [Bol, Grp 1 strLead, Star sp,
     Grp 2 (seqs [C (Lit (CHR 0x22)), Star (Grp 3 (C (NoneOf [CHR 0x22]))), C (Lit (CHR 0x22))]),
     Grp 4 strTail]"

definition pComment :: rx where
  "pComment = seqs [Bol, Grp 1 (Alt (Seq (Star dot) nsp) Bol), Star sp,
     Grp 2 (Seq (lit ''%'') (Star dot))]"

definition pBlank :: rx where
  "pBlank = seqs [Bol, Plus sp, Eol]"

text \<open>
  \<open>lzW\<close> is \<^verbatim>\<open>(.*?\W|^)\<close>, \<open>lzS\<close> is \<^verbatim>\<open>(.*?\S|^)\<close> and \<open>restS\<close> is \<^verbatim>\<open>(\S.*|$)\<close>.

  \<^verbatim>\<open>pNumSci: ^(.*?\W|^)\s*(\d+\.?\d*)([eE][+-]?)(\d+)(.*)\<close>

  \<^verbatim>\<open>pNumRational: ^(.*?\W|^)\s*(\d+)\s*(\/)\s*(\d+)(.*)\<close>

  \<^verbatim>\<open>pIncrement: ^(.*?\S|^)\s*(\+|\-)\s*(\+|\-)\s*([\)\]\},;].*|$)\<close>

  \<^verbatim>\<open>pSign: ^(.*?[\(\[\{,;:=\*/\s]|^)\s*(\+|\-)(\w.*)\<close>

  \<^verbatim>\<open>pColon: ^(.*?\S|^)\s*(:)\s*(\S.*|$)\<close>

  \<^verbatim>\<open>pEllipsis: ^(.*?\S|^)\s*(\.\.\.)\s*(\S.*|$)\<close>

  \<^verbatim>\<open>pOpDot: ^(.*?\S|^)\s*(\.)\s*(\+|\-|\*|/|\^)\s*(=)\s*(\S.*|$)\<close>

  \<^verbatim>\<open>pPowDot: ^(.*?\S|^)\s*(\.)\s*(\^)\s*(\S.*|$)\<close>

  \<^verbatim>\<open>pPow: ^(.*?\S|^)\s*(\^)\s*(\S.*|$)\<close>

  \<^verbatim>\<open>pOpComb: ^(.*?\S|^)\s*(\.|\+|\-|\*|\\|/|=|<|>|\||\&|!|~|\^)\s*(<|>|=|\+|\-|\*|/|\&|\|)\s*(\S.*|$)\<close>

  \<^verbatim>\<open>pNot: ^(.*?\S|^)\s*(!|~)\s*(\S.*|$)\<close>

  \<^verbatim>\<open>pOp: ^(.*?\S|^)\s*(\+|\-|\*|\\|/|=|!|~|<|>|\||\&)\s*(\S.*|$)\<close>

  \<^verbatim>\<open>pFunc: ^(.*?\w)(\()\s*(\S.*|$)\<close>

  \<^verbatim>\<open>pOpen: ^(.*?)(\(|\[|\{)\s*(\S.*|$)\<close>

  \<^verbatim>\<open>pClose: ^(.*?\S|^)\s*(\)|\]|\})(.*|$)\<close>

  \<^verbatim>\<open>pComma: ^(.*?\S|^)\s*(,|;)\s*(\S.*|$)\<close>

  \<^verbatim>\<open>pMultiWS: ^(.*?\S|^)(\s{2,})(\S.*|$)\<close>
\<close>

definition lzW :: rx where "lzW = Alt (Seq (LStar dot) (C NWord)) Bol"
definition lzS :: rx where "lzS = Alt (Seq (LStar dot) nsp) Bol"
definition restS :: rx where "restS = Alt (Seq nsp (Star dot)) Eol"

definition pNumSci :: rx where
  "pNumSci = seqs [Bol, Grp 1 lzW, Star sp,
     Grp 2 (seqs [Plus (C Digit), Opt (lit ''.''), Star (C Digit)]),
     Grp 3 (Seq (chs ''eE'') (Opt (chs ''+-''))),
     Grp 4 (Plus (C Digit)), Grp 5 (Star dot)]"

definition pNumRational :: rx where
  "pNumRational = seqs [Bol, Grp 1 lzW, Star sp, Grp 2 (Plus (C Digit)), Star sp,
     Grp 3 (lit ''/''), Star sp, Grp 4 (Plus (C Digit)), Grp 5 (Star dot)]"

definition pIncrement :: rx where
  "pIncrement = seqs [Bol, Grp 1 lzS, Star sp, Grp 2 (kws [''+'', ''-'']), Star sp,
     Grp 3 (kws [''+'', ''-'']), Star sp,
     Grp 4 (Alt (Seq (chs '')]},;'') (Star dot)) Eol)]"

definition pSign :: rx where
  "pSign = seqs [Bol, Grp 1 (Alt (Seq (LStar dot) (chs (''([{,;:=*/'' @ ws_chars))) Bol), Star sp,
     Grp 2 (kws [''+'', ''-'']), Grp 3 (Seq (C Word) (Star dot))]"

definition pColon :: rx where
  "pColon = seqs [Bol, Grp 1 lzS, Star sp, Grp 2 (lit '':''), Star sp, Grp 3 restS]"

definition pEllipsis :: rx where
  "pEllipsis = seqs [Bol, Grp 1 lzS, Star sp, Grp 2 (lit ''...''), Star sp, Grp 3 restS]"

definition pOpDot :: rx where
  "pOpDot = seqs [Bol, Grp 1 lzS, Star sp, Grp 2 (lit ''.''), Star sp,
     Grp 3 (kws [''+'', ''-'', ''*'', ''/'', ''^'']), Star sp, Grp 4 (lit ''=''), Star sp,
     Grp 5 restS]"

definition pPowDot :: rx where
  "pPowDot = seqs [Bol, Grp 1 lzS, Star sp, Grp 2 (lit ''.''), Star sp, Grp 3 (lit ''^''), Star sp,
     Grp 4 restS]"

definition pPow :: rx where
  "pPow = seqs [Bol, Grp 1 lzS, Star sp, Grp 2 (lit ''^''), Star sp, Grp 3 restS]"

definition pOpComb :: rx where
  "pOpComb = seqs [Bol, Grp 1 lzS, Star sp,
     Grp 2 (kws [''.'', ''+'', ''-'', ''*'', [CHR 0x5C], ''/'', ''='', ''<'', ''>'', ''|'', ''&'',
                 ''!'', ''~'', ''^'']),
     Star sp,
     Grp 3 (kws [''<'', ''>'', ''='', ''+'', ''-'', ''*'', ''/'', ''&'', ''|'']), Star sp,
     Grp 4 restS]"

definition pNot :: rx where
  "pNot = seqs [Bol, Grp 1 lzS, Star sp, Grp 2 (kws [''!'', ''~'']), Star sp, Grp 3 restS]"

definition pOp :: rx where
  "pOp = seqs [Bol, Grp 1 lzS, Star sp,
     Grp 2 (kws [''+'', ''-'', ''*'', [CHR 0x5C], ''/'', ''='', ''!'', ''~'', ''<'', ''>'', ''|'',
                 ''&'']),
     Star sp, Grp 3 restS]"

definition pFunc :: rx where
  "pFunc = seqs [Bol, Grp 1 (Seq (LStar dot) (C Word)), Grp 2 (lit ''(''), Star sp, Grp 3 restS]"

definition pOpen :: rx where
  "pOpen = seqs [Bol, Grp 1 (LStar dot), Grp 2 (kws [''('', ''['', ''{'']), Star sp, Grp 3 restS]"

definition pClose :: rx where
  "pClose = seqs [Bol, Grp 1 lzS, Star sp, Grp 2 (kws ['')'', '']'', ''}'']),
     Grp 3 (Alt (Star dot) Eol)]"

definition pComma :: rx where
  "pComma = seqs [Bol, Grp 1 lzS, Star sp, Grp 2 (kws ['','', '';'']), Star sp, Grp 3 restS]"

definition pMultiWS :: rx where
  "pMultiWS = seqs [Bol, Grp 1 lzS, Grp 2 (seqs [sp, sp, Star sp]), Grp 3 restS]"

text \<open>
  \<^verbatim>\<open>cellIndent\<close> compiles its own pattern from the opening bracket it is called with:
  \<^verbatim>\<open>(\s*)((\S.*)?)(OPEN.*$)\<close>, not anchored at the beginning.
\<close>

definition cellPattern :: "char \<Rightarrow> rx" where
  "cellPattern opener = seqs [Grp 1 (Star sp), Grp 2 (Opt (Grp 3 (Seq nsp (Star dot)))),
     Grp 4 (seqs [C (Lit opener), Star dot, Eol])]"

section \<open>Options and engine state\<close>

text \<open>
  \<^verbatim>\<open>Options\<close> and \<^verbatim>\<open>Formatter\<close> are the structs of the source.  The compiled patterns are
  the constants above, so the record keeps the configuration and the mutable state.
  Go's \<^verbatim>\<open>int\<close> is modelled by \<open>int\<close>: the counters move by at most two per line or
  are set from a parsed number that fits, so no run reaches \<open>2^63\<close>.  \<^verbatim>\<open>operatorSep\<close> takes
  the values 1, 1/2 and 0 only and is compared with 0 and 1/2, so \<open>rat\<close> represents it
  exactly.
\<close>

datatype error = IndentWidthNotPositive

record Options =
  StartLine :: int
  EndLine :: int
  IndentWidth :: int
  SeparateBlocks :: bool
  IndentMode :: string
  AddSpaces :: string
  MatrixIndent :: string

definition DefaultOptions :: Options where
  "DefaultOptions = \<lparr>StartLine = 1, EndLine = 0, IndentWidth = 4, SeparateBlocks = True,
     IndentMode = ''all_functions'', AddSpaces = ''exclude_pow'', MatrixIndent = ''aligned''\<rparr>"

record Formatter =
  opts :: Options
  indentMode :: int
  operatorSep :: rat
  matrixIndent :: bool
  iwidth :: int
  separateBlock :: bool
  ilvl :: int
  istep :: "int list"
  fstep :: "int list"
  matrix :: int
  cell :: int
  isBlockComment :: int
  isLineComment :: int
  longLine :: int
  continueLine :: int
  isComment :: int
  ignoreLines :: int

definition indentModes :: "string \<rightharpoonup> int" where
  "indentModes = [''all_functions'' \<mapsto> 1, ''only_nested_functions'' \<mapsto> -1, ''classic'' \<mapsto> 0]"

definition operatorSpaces :: "string \<rightharpoonup> rat" where
  "operatorSpaces = [''all_operators'' \<mapsto> 1, ''exclude_pow'' \<mapsto> 1/2, ''no_spaces'' \<mapsto> 0]"

definition matrixIndentation :: "string \<rightharpoonup> bool" where
  "matrixIndentation = [''aligned'' \<mapsto> True, ''simple'' \<mapsto> False]"

definition blockCommentSentinel :: int where
  "blockCommentSentinel = 2 ^ 30"

definition New :: "Options \<Rightarrow> error + Formatter" where
  "New opt =
     (if IndentWidth opt \<le> 0 then Inl IndentWidthNotPositive
      else Inr \<lparr>opts = opt,
        indentMode = (case indentModes (IndentMode opt) of Some v \<Rightarrow> v | None \<Rightarrow> 1),
        operatorSep = (case operatorSpaces (AddSpaces opt) of Some v \<Rightarrow> v | None \<Rightarrow> 1/2),
        matrixIndent = (case matrixIndentation (MatrixIndent opt) of Some v \<Rightarrow> v | None \<Rightarrow> True),
        iwidth = IndentWidth opt, separateBlock = SeparateBlocks opt,
        ilvl = 0, istep = [], fstep = [], matrix = 0, cell = 0, isBlockComment = 0,
        isLineComment = 0, longLine = 0, continueLine = 0, isComment = 0, ignoreLines = 0\<rparr>)"

definition resetState :: "Formatter \<Rightarrow> Formatter" where
  "resetState f = f\<lparr>ilvl := 0, istep := [], fstep := [], matrix := 0, cell := 0,
     isBlockComment := 0, isLineComment := 0, longLine := 0, continueLine := 0,
     isComment := 0, ignoreLines := 0\<rparr>"

subsection \<open>Library functions of \<^verbatim>\<open>strings\<close> and \<^verbatim>\<open>strconv\<close>\<close>

text \<open>
  \<^verbatim>\<open>strings.TrimSpace\<close> removes the white space of Unicode at both ends; in ASCII text
  that is tab, newline, vertical tab, form feed, carriage return and space (one
  character more than \<^verbatim>\<open>\s\<close>).  \<^verbatim>\<open>strings.TrimRight(line, " \t\r\n")\<close> removes the
  characters of its cutset at the end.  \<^verbatim>\<open>strconv.Atoi\<close> is applied to what \<^verbatim>\<open>(\d*)\<close>
  captured when that is not empty: it returns the number, or an error when the number
  does not fit 64 bits.
\<close>

definition TrimLeftSet :: "string \<Rightarrow> string \<Rightarrow> string" where
  "TrimLeftSet cs s = dropWhile (\<lambda>c. c \<in> set cs) s"

definition TrimRight :: "string \<Rightarrow> string \<Rightarrow> string" where
  "TrimRight s cs = rev (dropWhile (\<lambda>c. c \<in> set cs) (rev s))"

definition space_cutset :: string where
  "space_cutset = [CHR 0x09, CHR 0x0A, CHR 0x0B, CHR 0x0C, CHR 0x0D, CHR '' '']"

definition TrimSpace :: "string \<Rightarrow> string" where
  "TrimSpace s = TrimRight (TrimLeftSet space_cutset s) space_cutset"

definition line_cutset :: string where
  "line_cutset = [CHR '' '', CHR 0x09, CHR 0x0D, CHR 0x0A]"

definition Repeat :: "string \<Rightarrow> int \<Rightarrow> string" where
  "Repeat s n = concat (replicate (nat n) s)"

definition Count :: "string \<Rightarrow> char \<Rightarrow> int" where
  "Count s c = int (length (filter (\<lambda>x. x = c) s))"

definition digitsValue :: "string \<Rightarrow> int" where
  "digitsValue ds = foldl (\<lambda>a c. 10 * a + (int (of_char c) - 48)) 0 ds"

definition Atoi :: "string \<Rightarrow> int option" where
  "Atoi ds =
     (if ds = [] \<or> \<not> list_all is_digit ds then None
      else if digitsValue ds > 2 ^ 63 - 1 then None
      else Some (digitsValue ds))"

definition indent :: "Formatter \<Rightarrow> int \<Rightarrow> string" where
  "indent f extra =
     (let width = (ilvl f + continueLine f) * iwidth f + extra;
          width = (if width < 0 then 0 else width)
      in if width = 0 then [] else Repeat '' '' width)"

section \<open>The token extractor\<close>

text \<open>
  \<^verbatim>\<open>extractStringOrComment\<close>, \<^verbatim>\<open>extract\<close>, \<^verbatim>\<open>format\<close> and
  \<^verbatim>\<open>cleanLineFromStringsAndComments\<close> read \<^verbatim>\<open>operatorSep\<close> and write \<^verbatim>\<open>isComment\<close>, nothing
  else of the state, so they take \<^verbatim>\<open>operatorSep\<close> and the value of \<^verbatim>\<open>isComment\<close> and
  return its new value.  The result \<open>None\<close> stands for \<^verbatim>\<open>ok = false\<close>.  (\<open>extract\<close> is a
  command of Isabelle, hence the name \<open>extract_part\<close>.)
\<close>

definition extractStringOrComment ::
    "string \<Rightarrow> int \<Rightarrow> (string \<times> string \<times> string) option \<times> int" where
  "extractStringOrComment part ic =
     (let m = FindStringSubmatch pString part;
          m2 = FindStringSubmatch pStringDQ part;
          m = (case m2 of None \<Rightarrow> m
               | Some c2 \<Rightarrow> (case m of None \<Rightarrow> m2
                   | Some c \<Rightarrow> if length (grp c 2) < length (grp c2 2) then m2 else m))
      in case m of
           Some c \<Rightarrow> (Some (grp c 1, grp c 2, grp c 4), ic)
         | None \<Rightarrow> (case FindStringSubmatch pComment part of
               Some c \<Rightarrow> (Some (grp c 1 @ '' '', grp c 2, []), 1)
             | None \<Rightarrow> (None, ic)))"

definition sepIf :: "bool \<Rightarrow> string" where
  "sepIf b = (if b then '' '' else [])"

text \<open>
  \<open>rule p part g els\<close> is one \<^verbatim>\<open>if m := p.FindStringSubmatch(part); m != nil { return g(m) }\<close>
  followed by the rest \<open>els\<close> of the function.
\<close>

definition rule :: "rx \<Rightarrow> string \<Rightarrow> (caps \<Rightarrow> string \<times> string \<times> string) \<Rightarrow>
    (string \<times> string \<times> string) option \<Rightarrow> (string \<times> string \<times> string) option" where
  "rule p part g els = (case FindStringSubmatch p part of Some m \<Rightarrow> Some (g m) | None \<Rightarrow> els)"

definition extract_part ::
    "rat \<Rightarrow> string \<Rightarrow> int \<Rightarrow> (string \<times> string \<times> string) option \<times> int" where
  "extract_part osep part ic =
     (if MatchString pBlank part then (Some ([], '' '', []), ic)
      else case extractStringOrComment part ic of
        (Some t, ic') \<Rightarrow> (Some t, ic')
      | (None, ic') \<Rightarrow>
         (rule pNumSci part (\<lambda>m. (grp m 1 @ grp m 2, grp m 3, grp m 4 @ grp m 5))
         (rule pNumRational part (\<lambda>m. (grp m 1 @ grp m 2, grp m 3, grp m 4 @ grp m 5))
         (rule pIncrement part (\<lambda>m. (grp m 1, grp m 2 @ grp m 3, grp m 4))
         (rule pSign part (\<lambda>m. (grp m 1, grp m 2, grp m 3))
         (rule pColon part (\<lambda>m. (grp m 1, grp m 2, grp m 3))
         (rule pOpDot part (\<lambda>m. (grp m 1 @ sepIf (osep > 0), grp m 2 @ grp m 3 @ grp m 4,
                                  sepIf (osep > 0) @ grp m 5))
         (rule pPowDot part (\<lambda>m. (grp m 1 @ sepIf (osep > 1/2), grp m 2 @ grp m 3,
                                   sepIf (osep > 1/2) @ grp m 4))
         (rule pPow part (\<lambda>m. (grp m 1 @ sepIf (osep > 1/2), grp m 2, sepIf (osep > 1/2) @ grp m 3))
         (rule pOpComb part (\<lambda>m. (grp m 1 @ sepIf (osep > 0), grp m 2 @ grp m 3,
                                   sepIf (osep > 0) @ grp m 4))
         (rule pNot part (\<lambda>m. (grp m 1 @ '' '', grp m 2, grp m 3))
         (rule pOp part (\<lambda>m. (grp m 1 @ sepIf (osep > 0), grp m 2, sepIf (osep > 0) @ grp m 3))
         (rule pFunc part (\<lambda>m. (grp m 1, grp m 2, grp m 3))
         (rule pOpen part (\<lambda>m. (grp m 1, grp m 2, grp m 3))
         (rule pClose part (\<lambda>m. (grp m 1, grp m 2, grp m 3))
         (rule pComma part (\<lambda>m. (grp m 1, grp m 2, '' '' @ grp m 3))
         (rule pEllipsis part (\<lambda>m. (grp m 1 @ '' '', grp m 2, '' '' @ grp m 3))
         (rule pMultiWS part (\<lambda>m. (grp m 1, '' '', grp m 3))
          None)))))))))))))))), ic'))"

section \<open>What a match says about the text\<close>

text \<open>
  \<open>rm r b w s' cs cs'\<close>: the expression \<open>r\<close> matches the word \<open>w\<close>, standing before the rest
  \<open>s'\<close> of the text (\<open>b\<close>: at the beginning of the text), and turns the submatches \<open>cs\<close>
  into \<open>cs'\<close>.  Whatever the matcher returns is such a match (\<open>bt_sound\<close>); that is all
  the theorems below need to know about a successful match of a pattern.
\<close>

inductive rm :: "rx \<Rightarrow> bool \<Rightarrow> string \<Rightarrow> string \<Rightarrow> caps \<Rightarrow> caps \<Rightarrow> bool" where
  rm_C: "cls_ok c x \<Longrightarrow> rm (C c) b [x] s' cs cs"
| rm_Emp: "rm Emp b [] s' cs cs"
| rm_Bol: "rm Bol True [] s' cs cs"
| rm_Eol: "rm Eol b [] [] cs cs"
| rm_Seq: "rm r1 b w1 (w2 @ s') cs cs1 \<Longrightarrow> rm r2 (b \<and> w1 = []) w2 s' cs1 cs2
     \<Longrightarrow> rm (Seq r1 r2) b (w1 @ w2) s' cs cs2"
| rm_Alt1: "rm r1 b w s' cs cs' \<Longrightarrow> rm (Alt r1 r2) b w s' cs cs'"
| rm_Alt2: "rm r2 b w s' cs cs' \<Longrightarrow> rm (Alt r1 r2) b w s' cs cs'"
| rm_Star0: "rm (Star r) b [] s' cs cs"
| rm_StarS: "rm r b w1 (w2 @ s') cs cs1 \<Longrightarrow> w1 \<noteq> [] \<Longrightarrow> rm (Star r) False w2 s' cs1 cs2
     \<Longrightarrow> rm (Star r) b (w1 @ w2) s' cs cs2"
| rm_LStar0: "rm (LStar r) b [] s' cs cs"
| rm_LStarS: "rm r b w1 (w2 @ s') cs cs1 \<Longrightarrow> w1 \<noteq> [] \<Longrightarrow> rm (LStar r) False w2 s' cs1 cs2
     \<Longrightarrow> rm (LStar r) b (w1 @ w2) s' cs cs2"
| rm_Grp: "rm r b w s' cs cs1 \<Longrightarrow> rm (Grp i r) b w s' cs (cs1(i \<mapsto> w))"

lemma bt_soundI:
  "s = w @ s' \<Longrightarrow> rm r b w s' cs cs' \<Longrightarrow> k (b \<and> w = []) s' cs' = Some res \<Longrightarrow>
     \<exists>w s' cs'. s = w @ s' \<and> rm r b w s' cs cs' \<and> k (b \<and> w = []) s' cs' = Some res"
  by blast

lemma bt_sound:
  "bt r b s cs k = Some res \<Longrightarrow>
     \<exists>w s' cs'. s = w @ s' \<and> rm r b w s' cs cs' \<and> k (b \<and> w = []) s' cs' = Some res"
proof (induction r b s cs k arbitrary: res rule: bt.induct)
  case (1 c b s cs k)
  show ?case
  proof (cases s)
    case Nil
    with "1.prems" show ?thesis by simp
  next
    case (Cons x xs)
    with "1.prems" have ok: "cls_ok c x" and kk: "k False xs cs = Some res"
      by (auto split: if_splits)
    have "rm (C c) b [x] xs cs cs" using ok by (rule rm_C)
    with kk Cons show ?thesis
      by (intro bt_soundI[of s "[x]" xs]) simp_all
  qed
next
  case (2 b s cs k)
  then have "k (b \<and> ([]::string) = []) s cs = Some res" and "rm Emp b [] s cs cs"
    by (simp_all add: rm_Emp)
  then show ?case by (intro bt_soundI[of s "[]" s]) simp_all
next
  case (3 b s cs k)
  then have "b" and "k b s cs = Some res" by (auto split: if_splits)
  then have "k (b \<and> ([]::string) = []) s cs = Some res" and "rm Bol b [] s cs cs"
    by (simp_all add: rm_Bol)
  then show ?case by (intro bt_soundI[of s "[]" s]) simp_all
next
  case (4 b s cs k)
  then have "s = []" and "k b s cs = Some res" by (auto split: if_splits)
  then have "k (b \<and> ([]::string) = []) s cs = Some res" and "rm Eol b [] s cs cs"
    by (simp_all add: rm_Eol)
  then show ?case by (intro bt_soundI[of s "[]" s]) simp_all
next
  case (5 r1 r2 b s cs k)
  from "5.prems" have "bt r1 b s cs (\<lambda>b' s' cs'. bt r2 b' s' cs' k) = Some res" by simp
  from "5.IH"(2)[OF this] obtain w1 s1 cs1 where
    a: "s = w1 @ s1" "rm r1 b w1 s1 cs cs1" "bt r2 (b \<and> w1 = []) s1 cs1 k = Some res" by blast
  from "5.IH"(1)[OF a(3)] obtain w2 s2 cs2 where
    c: "s1 = w2 @ s2" "rm r2 (b \<and> w1 = []) w2 s2 cs1 cs2" "k ((b \<and> w1 = []) \<and> w2 = []) s2 cs2 = Some res"
    by blast
  have "rm (Seq r1 r2) b (w1 @ w2) s2 cs cs2"
    using a(2) c(1,2) by (auto intro: rm_Seq)
  moreover have "k (b \<and> w1 @ w2 = []) s2 cs2 = Some res" using c(3) by simp
  ultimately show ?case using a(1) c(1) by (metis append.assoc)
next
  case (6 r1 r2 b s cs k)
  show ?case
  proof (cases "bt r1 b s cs k")
    case None
    with "6.prems" have "bt r2 b s cs k = Some res" by simp
    from "6.IH"(2)[OF None this] show ?thesis by (blast intro: rm_Alt2)
  next
    case (Some x)
    with "6.prems" have "bt r1 b s cs k = Some res" by simp
    from "6.IH"(1)[OF this] show ?thesis by (blast intro: rm_Alt1)
  qed
next
  case (7 r b s cs k)
  let ?k = "\<lambda>b' s' cs'. if length s' < length s then bt (Star r) b' s' cs' k else None"
  show ?case
  proof (cases "bt r b s cs ?k")
    case None
    with "7.prems" have "k b s cs = Some res" by simp
    then show ?thesis by (intro bt_soundI[of s "[]" s]) (simp_all add: rm_Star0)
  next
    case (Some x)
    with "7.prems" have e: "bt r b s cs ?k = Some res" by simp
    from "7.IH"(2)[OF e] obtain w1 s1 cs1 where
      a: "s = w1 @ s1" "rm r b w1 s1 cs cs1" "?k (b \<and> w1 = []) s1 cs1 = Some res" by blast
    from a(3) have l: "length s1 < length s" and
      g: "bt (Star r) (b \<and> w1 = []) s1 cs1 k = Some res" by (auto split: if_splits)
    from l a(1) have ne: "w1 \<noteq> []" by auto
    from "7.IH"(1)[OF l g] obtain w2 s2 cs2 where
      c: "s1 = w2 @ s2" "rm (Star r) (b \<and> w1 = []) w2 s2 cs1 cs2"
         "k ((b \<and> w1 = []) \<and> w2 = []) s2 cs2 = Some res" by blast
    have "rm (Star r) b (w1 @ w2) s2 cs cs2"
      using a(2) c(1,2) ne by (auto intro: rm_StarS)
    moreover have "k (b \<and> w1 @ w2 = []) s2 cs2 = Some res" using c(3) ne by simp
    ultimately show ?thesis using a(1) c(1) by (metis append.assoc)
  qed
next
  case (8 r b s cs k)
  let ?k = "\<lambda>b' s' cs'. if length s' < length s then bt (LStar r) b' s' cs' k else None"
  show ?case
  proof (cases "k b s cs")
    case (Some x)
    with "8.prems" have "k b s cs = Some res" by simp
    then show ?thesis by (intro bt_soundI[of s "[]" s]) (simp_all add: rm_LStar0)
  next
    case None
    with "8.prems" have e: "bt r b s cs ?k = Some res" by simp
    from "8.IH"(2)[OF None e] obtain w1 s1 cs1 where
      a: "s = w1 @ s1" "rm r b w1 s1 cs cs1" "?k (b \<and> w1 = []) s1 cs1 = Some res" by blast
    from a(3) have l: "length s1 < length s" and
      g: "bt (LStar r) (b \<and> w1 = []) s1 cs1 k = Some res" by (auto split: if_splits)
    from l a(1) have ne: "w1 \<noteq> []" by auto
    from "8.IH"(1)[OF None l g] obtain w2 s2 cs2 where
      c: "s1 = w2 @ s2" "rm (LStar r) (b \<and> w1 = []) w2 s2 cs1 cs2"
         "k ((b \<and> w1 = []) \<and> w2 = []) s2 cs2 = Some res" by blast
    have "rm (LStar r) b (w1 @ w2) s2 cs cs2"
      using a(2) c(1,2) ne by (auto intro: rm_LStarS)
    moreover have "k (b \<and> w1 @ w2 = []) s2 cs2 = Some res" using c(3) ne by simp
    ultimately show ?thesis using a(1) c(1) by (metis append.assoc)
  qed
next
  case (9 i r b s cs k)
  let ?k = "\<lambda>b' s' cs'. k b' s' (cs'(i \<mapsto> take (length s - length s') s))"
  from "9.prems" have e: "bt r b s cs ?k = Some res" by simp
  from "9.IH"[OF e] obtain w s' cs' where
    a: "s = w @ s'" "rm r b w s' cs cs'" "?k (b \<and> w = []) s' cs' = Some res" by blast
  from a(1) have "take (length s - length s') s = w" by simp
  with a(3) have "k (b \<and> w = []) s' (cs'(i \<mapsto> w)) = Some res" by simp
  then show ?case using a(1,2) by (blast intro: rm_Grp)
qed


text \<open>
  Progress of the token extractor is measured by \<open>mu\<close>, twice the number of characters
  that are not spaces plus the length.  \<open>min_mu r\<close> bounds \<open>mu\<close> of a word matched by \<open>r\<close>
  from below; \<open>tgb r\<close> lists the groups that stand in sequence at the top of \<open>r\<close>, and
  \<open>ok_seq r\<close> says that no later part of \<open>r\<close> writes a group of an earlier part.  Then
  the words of these groups are disjoint pieces of the text (\<open>find_bounds\<close>).
\<close>

fun cls_ns :: "cls \<Rightarrow> bool" where
  "cls_ns (Lit d) = (\<not> is_space d)"
| "cls_ns (OneOf ds) = list_all (\<lambda>d. \<not> is_space d) ds"
| "cls_ns NSpace = True"
| "cls_ns Word = True"
| "cls_ns Digit = True"
| "cls_ns Dot = False"
| "cls_ns (NoneOf ds) = False"
| "cls_ns Space = False"
| "cls_ns NWord = False"

definition mu :: "string \<Rightarrow> nat" where
  "mu s = 2 * length (filter (\<lambda>c. \<not> is_space c) s) + length s"

fun min_mu :: "rx \<Rightarrow> nat" where
  "min_mu (C c) = (if cls_ns c then 3 else 1)"
| "min_mu Emp = 0"
| "min_mu Bol = 0"
| "min_mu Eol = 0"
| "min_mu (Seq a b) = min_mu a + min_mu b"
| "min_mu (Alt a b) = min (min_mu a) (min_mu b)"
| "min_mu (Star r) = 0"
| "min_mu (LStar r) = 0"
| "min_mu (Grp i r) = min_mu r"

fun grps :: "rx \<Rightarrow> nat list" where
  "grps (Seq a b) = grps a @ grps b"
| "grps (Alt a b) = grps a @ grps b"
| "grps (Star r) = grps r"
| "grps (LStar r) = grps r"
| "grps (Grp i r) = i # grps r"
| "grps r = []"

fun tgb :: "rx \<Rightarrow> (nat \<times> rx) list" where
  "tgb (Seq a b) = tgb a @ tgb b"
| "tgb (Grp i r) = [(i, r)]"
| "tgb r = []"

fun ok_seq :: "rx \<Rightarrow> bool" where
  "ok_seq (Seq a b) = (ok_seq a \<and> ok_seq b \<and> list_all (\<lambda>p. fst p \<notin> set (grps b)) (tgb a))"
| "ok_seq r = True"

lemma mu_append [simp]: "mu (a @ b) = mu a + mu b"
  by (simp add: mu_def)

lemma mu_Nil [simp]: "mu [] = 0"
  by (simp add: mu_def)

lemma is_word_not_space: "is_word x \<Longrightarrow> \<not> is_space x"
  by (auto simp: is_word_def is_space_def Let_def)

lemma is_digit_not_space: "is_digit x \<Longrightarrow> \<not> is_space x"
  by (auto simp: is_digit_def is_space_def Let_def)

lemma cls_ns_sound: "cls_ns c \<Longrightarrow> cls_ok c x \<Longrightarrow> \<not> is_space x"
  by (cases c) (auto simp: list_all_iff is_word_not_space is_digit_not_space)

lemma mu_single: "mu [x] = (if is_space x then 1 else 3)"
  by (simp add: mu_def)

lemma rm_min_mu: "rm r b w s' cs cs' \<Longrightarrow> min_mu r \<le> mu w"
proof (induction rule: rm.induct)
  case (rm_C c x b s' cs)
  then show ?case using cls_ns_sound[of c x] by (auto simp: mu_single)
qed auto

lemma rm_frame: "rm r b w s' cs cs' \<Longrightarrow> i \<notin> set (grps r) \<Longrightarrow> cs' i = cs i"
  by (induction rule: rm.induct) auto

definition gsum :: "caps \<Rightarrow> (nat \<times> rx) list \<Rightarrow> nat" where
  "gsum m gs = sum_list (map (\<lambda>p. mu (grp m (fst p))) gs)"

definition glow :: "caps \<Rightarrow> (nat \<times> rx) list \<Rightarrow> bool" where
  "glow m gs = list_all (\<lambda>p. min_mu (snd p) \<le> mu (grp m (fst p))) gs"

lemma gsum_cong: "(\<And>p. p \<in> set gs \<Longrightarrow> m (fst p) = m' (fst p)) \<Longrightarrow> gsum m gs = gsum m' gs"
  unfolding gsum_def grp_def by (induction gs) auto

lemma glow_cong: "(\<And>p. p \<in> set gs \<Longrightarrow> m (fst p) = m' (fst p)) \<Longrightarrow> glow m gs = glow m' gs"
  unfolding glow_def grp_def by (induction gs) auto

lemma rm_bounds:
  "rm r b w s' cs cs' \<Longrightarrow> ok_seq r \<Longrightarrow> gsum cs' (tgb r) \<le> mu w \<and> glow cs' (tgb r)"
proof (induction rule: rm.induct)
  case (rm_Seq r1 b w1 w2 s' cs cs1 r2 cs2)
  then have ok1: "ok_seq r1" and ok2: "ok_seq r2"
    and fr: "list_all (\<lambda>p. fst p \<notin> set (grps r2)) (tgb r1)" by auto
  have same: "\<And>p. p \<in> set (tgb r1) \<Longrightarrow> cs2 (fst p) = cs1 (fst p)"
    using fr rm_frame[OF rm_Seq.hyps(2)] by (auto simp: list_all_iff)
  have g1: "gsum cs2 (tgb r1) = gsum cs1 (tgb r1)" using same by (rule gsum_cong)
  have l1: "glow cs2 (tgb r1) = glow cs1 (tgb r1)" using same by (rule glow_cong)
  from rm_Seq.IH(1)[OF ok1] rm_Seq.IH(2)[OF ok2] g1 l1
  show ?case by (auto simp: gsum_def glow_def)
next
  case (rm_Grp r b w s' cs cs1 i)
  from rm_min_mu[OF rm_Grp.hyps] show ?case
    by (simp add: gsum_def glow_def grp_def)
qed (auto simp: gsum_def glow_def)

lemma find_from_sound:
  "rx_find_from r b s = Some m \<Longrightarrow>
     \<exists>pre w s'. s = pre @ w @ s' \<and> rm r (b \<and> pre = []) w s' Map.empty m"
proof (induction r b s rule: rx_find_from.induct)
  case (1 r b s)
  show ?case
  proof (cases "bt r b s Map.empty (\<lambda>b' s' cs. Some cs)")
    case (Some c)
    with "1.prems" have e: "bt r b s Map.empty (\<lambda>b' s' cs. Some cs) = Some m" by simp
    from bt_sound[OF e] obtain w s' where "s = w @ s'" "rm r b w s' Map.empty m" by auto
    then show ?thesis by (intro exI[of _ "[]"] exI[of _ w] exI[of _ s']) simp
  next
    case None
    show ?thesis
    proof (cases s)
      case Nil
      with None "1.prems" show ?thesis by simp
    next
      case (Cons x xs)
      with None "1.prems" have "rx_find_from r False xs = Some m" by simp
      from "1.IH"[OF None Cons this] obtain pre w s' where
        "xs = pre @ w @ s'" "rm r False w s' Map.empty m" by auto
      with Cons show ?thesis by (intro exI[of _ "x # pre"] exI[of _ w] exI[of _ s']) simp
    qed
  qed
qed

lemma find_sound:
  "FindStringSubmatch r s = Some m \<Longrightarrow>
     \<exists>pre w s'. s = pre @ w @ s' \<and> rm r (pre = []) w s' Map.empty m"
  unfolding FindStringSubmatch_def using find_from_sound[of r True s m] by simp

lemma find_bounds:
  assumes "FindStringSubmatch r s = Some m" and "ok_seq r"
  shows "gsum m (tgb r) \<le> mu s \<and> glow m (tgb r)"
proof -
  from find_sound[OF assms(1)] obtain pre w s' where
    a: "s = pre @ w @ s'" "rm r (pre = []) w s' Map.empty m" by blast
  from rm_bounds[OF a(2) assms(2)] a(1) show ?thesis by simp
qed

lemmas rx_defs = seqs.simps alts.simps lit.simps kws_def chs_def Plus_def Opt_def
  lzS_def lzW_def restS_def strLead_def strTail_def ws_chars_def tail3_def


lemma find_min_mu: "FindStringSubmatch r s = Some m \<Longrightarrow> min_mu r \<le> mu s"
proof -
  assume "FindStringSubmatch r s = Some m"
  from find_sound[OF this] obtain pre w s' where
    a: "s = pre @ w @ s'" "rm r (pre = []) w s' Map.empty m" by blast
  from rm_min_mu[OF a(2)] a(1) show ?thesis by simp
qed

lemmas bounds_simps = rx_defs gsum_def glow_def is_space_def

lemma pBlank_bounds: "FindStringSubmatch pBlank s = Some m \<Longrightarrow> 1 \<le> mu s"
  using find_min_mu[of pBlank s m] by (simp add: pBlank_def bounds_simps)

lemma pString_bounds:
  "FindStringSubmatch pString s = Some m \<Longrightarrow>
     mu (grp m 1) + mu (grp m 2) + mu (grp m 4) \<le> mu s \<and> 3 \<le> mu (grp m 2)"
  using find_bounds[of pString s m] by (simp add: pString_def bounds_simps)

lemma pStringDQ_bounds:
  "FindStringSubmatch pStringDQ s = Some m \<Longrightarrow>
     mu (grp m 1) + mu (grp m 2) + mu (grp m 4) \<le> mu s \<and> 3 \<le> mu (grp m 2)"
  using find_bounds[of pStringDQ s m] by (simp add: pStringDQ_def bounds_simps)

lemma pComment_bounds:
  "FindStringSubmatch pComment s = Some m \<Longrightarrow>
     mu (grp m 1) + mu (grp m 2) \<le> mu s \<and> 3 \<le> mu (grp m 2)"
  using find_bounds[of pComment s m] by (simp add: pComment_def bounds_simps)

lemma pNumSci_bounds:
  "FindStringSubmatch pNumSci s = Some m \<Longrightarrow>
     mu (grp m 1) + mu (grp m 2) + mu (grp m 3) + mu (grp m 4) + mu (grp m 5) \<le> mu s
     \<and> 3 \<le> mu (grp m 3)"
  using find_bounds[of pNumSci s m] by (simp add: pNumSci_def bounds_simps)

lemma pNumRational_bounds:
  "FindStringSubmatch pNumRational s = Some m \<Longrightarrow>
     mu (grp m 1) + mu (grp m 2) + mu (grp m 3) + mu (grp m 4) + mu (grp m 5) \<le> mu s
     \<and> 3 \<le> mu (grp m 3)"
  using find_bounds[of pNumRational s m] by (simp add: pNumRational_def bounds_simps)

lemma pIncrement_bounds:
  "FindStringSubmatch pIncrement s = Some m \<Longrightarrow>
     mu (grp m 1) + mu (grp m 2) + mu (grp m 3) + mu (grp m 4) \<le> mu s \<and> 3 \<le> mu (grp m 2)"
  using find_bounds[of pIncrement s m] by (simp add: pIncrement_def bounds_simps)

lemma pSign_bounds:
  "FindStringSubmatch pSign s = Some m \<Longrightarrow>
     mu (grp m 1) + mu (grp m 2) + mu (grp m 3) \<le> mu s \<and> 3 \<le> mu (grp m 2)"
  using find_bounds[of pSign s m] by (simp add: pSign_def bounds_simps)

lemma pColon_bounds:
  "FindStringSubmatch pColon s = Some m \<Longrightarrow>
     mu (grp m 1) + mu (grp m 2) + mu (grp m 3) \<le> mu s \<and> 3 \<le> mu (grp m 2)"
  using find_bounds[of pColon s m] by (simp add: pColon_def bounds_simps)

lemma pEllipsis_bounds:
  "FindStringSubmatch pEllipsis s = Some m \<Longrightarrow>
     mu (grp m 1) + mu (grp m 2) + mu (grp m 3) \<le> mu s \<and> 3 \<le> mu (grp m 2)"
  using find_bounds[of pEllipsis s m] by (simp add: pEllipsis_def bounds_simps)

lemma pOpDot_bounds:
  "FindStringSubmatch pOpDot s = Some m \<Longrightarrow>
     mu (grp m 1) + mu (grp m 2) + mu (grp m 3) + mu (grp m 4) + mu (grp m 5) \<le> mu s
     \<and> 3 \<le> mu (grp m 2)"
  using find_bounds[of pOpDot s m] by (simp add: pOpDot_def bounds_simps)

lemma pPowDot_bounds:
  "FindStringSubmatch pPowDot s = Some m \<Longrightarrow>
     mu (grp m 1) + mu (grp m 2) + mu (grp m 3) + mu (grp m 4) \<le> mu s \<and> 3 \<le> mu (grp m 2)"
  using find_bounds[of pPowDot s m] by (simp add: pPowDot_def bounds_simps)

lemma pPow_bounds:
  "FindStringSubmatch pPow s = Some m \<Longrightarrow>
     mu (grp m 1) + mu (grp m 2) + mu (grp m 3) \<le> mu s \<and> 3 \<le> mu (grp m 2)"
  using find_bounds[of pPow s m] by (simp add: pPow_def bounds_simps)

lemma pOpComb_bounds:
  "FindStringSubmatch pOpComb s = Some m \<Longrightarrow>
     mu (grp m 1) + mu (grp m 2) + mu (grp m 3) + mu (grp m 4) \<le> mu s \<and> 3 \<le> mu (grp m 2)"
  using find_bounds[of pOpComb s m] by (simp add: pOpComb_def bounds_simps)

lemma pNot_bounds:
  "FindStringSubmatch pNot s = Some m \<Longrightarrow>
     mu (grp m 1) + mu (grp m 2) + mu (grp m 3) \<le> mu s \<and> 3 \<le> mu (grp m 2)"
  using find_bounds[of pNot s m] by (simp add: pNot_def bounds_simps)

lemma pOp_bounds:
  "FindStringSubmatch pOp s = Some m \<Longrightarrow>
     mu (grp m 1) + mu (grp m 2) + mu (grp m 3) \<le> mu s \<and> 3 \<le> mu (grp m 2)"
  using find_bounds[of pOp s m] by (simp add: pOp_def bounds_simps)

lemma pFunc_bounds:
  "FindStringSubmatch pFunc s = Some m \<Longrightarrow>
     mu (grp m 1) + mu (grp m 2) + mu (grp m 3) \<le> mu s \<and> 3 \<le> mu (grp m 2)"
  using find_bounds[of pFunc s m] by (simp add: pFunc_def bounds_simps)

lemma pOpen_bounds:
  "FindStringSubmatch pOpen s = Some m \<Longrightarrow>
     mu (grp m 1) + mu (grp m 2) + mu (grp m 3) \<le> mu s \<and> 3 \<le> mu (grp m 2)"
  using find_bounds[of pOpen s m] by (simp add: pOpen_def bounds_simps)

lemma pClose_bounds:
  "FindStringSubmatch pClose s = Some m \<Longrightarrow>
     mu (grp m 1) + mu (grp m 2) + mu (grp m 3) \<le> mu s \<and> 3 \<le> mu (grp m 2)"
  using find_bounds[of pClose s m] by (simp add: pClose_def bounds_simps)

lemma pComma_bounds:
  "FindStringSubmatch pComma s = Some m \<Longrightarrow>
     mu (grp m 1) + mu (grp m 2) + mu (grp m 3) \<le> mu s \<and> 3 \<le> mu (grp m 2)"
  using find_bounds[of pComma s m] by (simp add: pComma_def bounds_simps)

lemma pMultiWS_bounds:
  "FindStringSubmatch pMultiWS s = Some m \<Longrightarrow>
     mu (grp m 1) + mu (grp m 2) + mu (grp m 3) \<le> mu s \<and> 2 \<le> mu (grp m 2)"
  using find_bounds[of pMultiWS s m] by (simp add: pMultiWS_def bounds_simps)

lemma mu_space [simp]: "mu '' '' = 1"
  by (simp add: mu_def is_space_def)

lemma mu_Cons_space [simp]: "mu (CHR '' '' # s) = Suc (mu s)"
  by (simp add: mu_def is_space_def)

lemma mu_sepIf: "mu (sepIf b) \<le> 1"
  by (simp add: sepIf_def)

lemma extractStringOrComment_cases:
  assumes "extractStringOrComment part ic = (Some t, ic')"
  shows "(\<exists>c. FindStringSubmatch pString part = Some c \<and> t = (grp c 1, grp c 2, grp c 4))
       \<or> (\<exists>c. FindStringSubmatch pStringDQ part = Some c \<and> t = (grp c 1, grp c 2, grp c 4))
       \<or> (\<exists>c. FindStringSubmatch pComment part = Some c \<and> t = (grp c 1 @ '' '', grp c 2, []))"
  using assms unfolding extractStringOrComment_def Let_def
  by (auto split: option.splits if_splits)

lemma extractStringOrComment_progress:
  assumes "extractStringOrComment part ic = (Some (l, md, r), ic')"
  shows "mu l < mu part \<and> mu r < mu part"
  using extractStringOrComment_cases[OF assms]
  by (auto dest!: pString_bounds pStringDQ_bounds pComment_bounds)

lemma rule_cases:
  "rule p part g els = Some t \<Longrightarrow>
     (\<exists>m. FindStringSubmatch p part = Some m \<and> t = g m) \<or> els = Some t"
  by (auto simp: rule_def split: option.splits)

lemma extract_part_progress:
  assumes "extract_part osep part ic = (Some (l, md, r), ic')"
  shows "mu l < mu part \<and> mu r < mu part"
proof (cases "MatchString pBlank part")
  case True
  then obtain m where "FindStringSubmatch pBlank part = Some m"
    by (auto simp: MatchString_def)
  from pBlank_bounds[OF this] True assms show ?thesis
    by (simp add: extract_part_def)
next
  case False
  show ?thesis
  proof (cases "extractStringOrComment part ic")
    case (Pair t ic1)
    show ?thesis
    proof (cases t)
      case (Some a)
      with Pair False assms have "extractStringOrComment part ic = (Some (l, md, r), ic1)"
        by (simp add: extract_part_def)
      then show ?thesis by (rule extractStringOrComment_progress)
    next
      case None
      note b = mu_sepIf[of "0 < osep"] mu_sepIf[of "1/2 < osep"]
      from None Pair False assms have
        "rule pNumSci part (\<lambda>m. (grp m 1 @ grp m 2, grp m 3, grp m 4 @ grp m 5))
         (rule pNumRational part (\<lambda>m. (grp m 1 @ grp m 2, grp m 3, grp m 4 @ grp m 5))
         (rule pIncrement part (\<lambda>m. (grp m 1, grp m 2 @ grp m 3, grp m 4))
         (rule pSign part (\<lambda>m. (grp m 1, grp m 2, grp m 3))
         (rule pColon part (\<lambda>m. (grp m 1, grp m 2, grp m 3))
         (rule pOpDot part (\<lambda>m. (grp m 1 @ sepIf (osep > 0), grp m 2 @ grp m 3 @ grp m 4, sepIf (osep > 0) @ grp m 5))
         (rule pPowDot part (\<lambda>m. (grp m 1 @ sepIf (osep > 1/2), grp m 2 @ grp m 3, sepIf (osep > 1/2) @ grp m 4))
         (rule pPow part (\<lambda>m. (grp m 1 @ sepIf (osep > 1/2), grp m 2, sepIf (osep > 1/2) @ grp m 3))
         (rule pOpComb part (\<lambda>m. (grp m 1 @ sepIf (osep > 0), grp m 2 @ grp m 3, sepIf (osep > 0) @ grp m 4))
         (rule pNot part (\<lambda>m. (grp m 1 @ '' '', grp m 2, grp m 3))
         (rule pOp part (\<lambda>m. (grp m 1 @ sepIf (osep > 0), grp m 2, sepIf (osep > 0) @ grp m 3))
         (rule pFunc part (\<lambda>m. (grp m 1, grp m 2, grp m 3))
         (rule pOpen part (\<lambda>m. (grp m 1, grp m 2, grp m 3))
         (rule pClose part (\<lambda>m. (grp m 1, grp m 2, grp m 3))
         (rule pComma part (\<lambda>m. (grp m 1, grp m 2, '' '' @ grp m 3))
         (rule pEllipsis part (\<lambda>m. (grp m 1 @ '' '', grp m 2, '' '' @ grp m 3))
         (rule pMultiWS part (\<lambda>m. (grp m 1, '' '', grp m 3))
          None)))))))))))))))) = Some (l, md, r)"
        by (simp add: extract_part_def)
      then show ?thesis
        apply (elim rule_cases[THEN disjE] exE conjE)
        using b
        by (auto dest!: pNumSci_bounds pNumRational_bounds pIncrement_bounds pSign_bounds
            pColon_bounds pOpDot_bounds pPowDot_bounds pPow_bounds pOpComb_bounds pNot_bounds
            pOp_bounds pFunc_bounds pOpen_bounds pClose_bounds pComma_bounds pEllipsis_bounds
            pMultiWS_bounds)
    qed
  qed
qed

section \<open>The spacing normalizer\<close>

text \<open>
  Both recursions of the source are defined with their termination proofs: each call
  is on a text of smaller \<open>mu\<close> (\<open>extractStringOrComment_progress\<close>,
  \<open>extract_part_progress\<close>).  Go evaluates the operands of \<^verbatim>\<open>+\<close> from left to right, so
  the left recursion hands its \<^verbatim>\<open>isComment\<close> to the right one.
\<close>

function cleanLineFromStringsAndComments :: "string \<Rightarrow> int \<Rightarrow> string \<times> int" where
  "cleanLineFromStringsAndComments line ic =
     (case extractStringOrComment line ic of
        (None, ic1) \<Rightarrow> (line, ic1)
      | (Some (left, mid, right), ic1) \<Rightarrow>
          (case cleanLineFromStringsAndComments left ic1 of (a, ic2) \<Rightarrow>
             (case cleanLineFromStringsAndComments right ic2 of (b, ic3) \<Rightarrow>
                (a @ '' '' @ b, ic3))))"
  by pat_completeness auto
termination
  by (relation "measure (\<lambda>(line, ic). mu line)")
     (auto dest: extractStringOrComment_progress[OF sym])

declare cleanLineFromStringsAndComments.simps [simp del]

function format :: "rat \<Rightarrow> string \<Rightarrow> int \<Rightarrow> string \<times> int" where
  "format osep part ic =
     (case extract_part osep part ic of
        (None, ic1) \<Rightarrow> (part, ic1)
      | (Some (left, mid, right), ic1) \<Rightarrow>
          (case format osep left ic1 of (a, ic2) \<Rightarrow>
             (case format osep right ic2 of (b, ic3) \<Rightarrow>
                (a @ mid @ b, ic3))))"
  by pat_completeness auto
termination
  by (relation "measure (\<lambda>(osep, part, ic). mu part)")
     (auto dest: extract_part_progress[OF sym])

declare format.simps [simp del]

text \<open>
  \<open>format_fuel\<close> is \<^verbatim>\<open>format\<close> with a bound on the depth of the recursion: \<open>None\<close> when the
  bound is reached.  It serves to state that the recursion of \<^verbatim>\<open>format\<close> ends.
\<close>

fun format_fuel :: "nat \<Rightarrow> rat \<Rightarrow> string \<Rightarrow> int \<Rightarrow> (string \<times> int) option" where
  "format_fuel 0 osep part ic = None"
| "format_fuel (Suc n) osep part ic =
     (case extract_part osep part ic of
        (None, ic1) \<Rightarrow> Some (part, ic1)
      | (Some (left, mid, right), ic1) \<Rightarrow>
          (case format_fuel n osep left ic1 of
             None \<Rightarrow> None
           | Some (a, ic2) \<Rightarrow>
               (case format_fuel n osep right ic2 of
                  None \<Rightarrow> None
                | Some (b, ic3) \<Rightarrow> Some (a @ mid @ b, ic3))))"

section \<open>The line engine\<close>

text \<open>
  \<^verbatim>\<open>cellIndent\<close>, \<^verbatim>\<open>multilineMatrix\<close> and \<^verbatim>\<open>cellArray\<close> as in the source; the state is
  passed and returned.
\<close>

definition cellIndent :: "Formatter \<Rightarrow> string \<Rightarrow> char \<Rightarrow> char \<Rightarrow> int \<Rightarrow> int \<times> int \<times> Formatter" where
  "cellIndent f line opener closer ind =
     (case cleanLineFromStringsAndComments line (isComment f) of (cleaned, ic) \<Rightarrow>
        (let f1 = f\<lparr>isComment := ic\<rparr>;
             openCount = Count cleaned opener - Count cleaned closer
         in if openCount > 0 then
              (case FindStringSubmatch (cellPattern opener) cleaned of
                 Some m \<Rightarrow> (openCount,
                   (if matrixIndent f1 then int (length (grp m 2)) + 1 else iwidth f1), f1)
               | None \<Rightarrow> (openCount, ind, f1))
            else if openCount < 0 then (openCount, 0, f1)
            else (openCount, ind, f1)))"

definition multilineMatrix :: "Formatter \<Rightarrow> string \<Rightarrow> int \<times> Formatter" where
  "multilineMatrix f line =
     (case cellIndent f line (CHR ''['') (CHR '']'') (matrix f) of
        (diff, ind, f1) \<Rightarrow> (diff, f1\<lparr>matrix := ind\<rparr>))"

definition cellArray :: "Formatter \<Rightarrow> string \<Rightarrow> int \<times> Formatter" where
  "cellArray f line =
     (case cellIndent f line (CHR ''{'') (CHR ''}'') (cell f) of
        (diff, ind, f1) \<Rightarrow> (diff, f1\<lparr>cell := ind\<rparr>))"

text \<open>
  \<open>fmt\<close> is the method call \<^verbatim>\<open>f.format(part)\<close> on the state.  \<^verbatim>\<open>formatLine\<close> is one function
  in the source; here its stages are named: \<open>commentState\<close> (the two comment counters),
  \<open>continuationState\<close> (\<^verbatim>\<open>isComment\<close>, \<^verbatim>\<open>continueLine\<close>, \<^verbatim>\<open>longLine\<close>), \<open>ignoreDirective\<close> (the
  body of \<^verbatim>\<open>if f.isLineComment == 2\<close>), \<open>codeLine\<close> (from \<^verbatim>\<open>ctrlIgnore\<close> to the cell
  array) and \<open>statementLine\<close> (from \<^verbatim>\<open>ctrl1Line\<close> to the end of the function).
  \<open>closeBlock\<close> is the \<^verbatim>\<open>if\<close> chain of the \<^verbatim>\<open>ctrlEnd\<close> branch: it returns \<^verbatim>\<open>step\<close>,
  \<^verbatim>\<open>indentExtra\<close> and the state; \<open>keywordLine\<close> is the common form
  \<^verbatim>\<open>return offset, f.indent(extra) + kw + " " + strings.TrimSpace(f.format(rest))\<close>.
  \<^verbatim>\<open>formatLine\<close> returns the offset, the line and the state.
\<close>

definition fmt :: "Formatter \<Rightarrow> string \<Rightarrow> string \<times> Formatter" where
  "fmt f part = (case format (operatorSep f) part (isComment f) of
     (t, ic) \<Rightarrow> (t, f\<lparr>isComment := ic\<rparr>))"

definition commentState :: "Formatter \<Rightarrow> string \<Rightarrow> Formatter" where
  "commentState f line =
     (let f1 = (if MatchString lineComment line then f\<lparr>isLineComment := 2\<rparr>
                else if isLineComment f > 0 then f\<lparr>isLineComment := isLineComment f - 1\<rparr>
                else f)
      in if MatchString blockCommentOpen line then f1\<lparr>isBlockComment := blockCommentSentinel\<rparr>
         else if MatchString blockCommentClose line then f1\<lparr>isBlockComment := 1\<rparr>
         else if isBlockComment f1 > 0 then f1\<lparr>isBlockComment := isBlockComment f1 - 1\<rparr>
         else f1)"

definition continuationState :: "Formatter \<Rightarrow> string \<Rightarrow> Formatter" where
  "continuationState f line =
     (case cleanLineFromStringsAndComments line 0 of (stripped, ic) \<Rightarrow>
        (let f1 = f\<lparr>isComment := ic\<rparr>;
             ellipsisInComment = (isLineComment f1 = 2 \<or> isBlockComment f1 > 0);
             f2 = (if MatchString blockClose stripped \<or> ellipsisInComment
                   then f1\<lparr>continueLine := 0\<rparr>
                   else f1\<lparr>continueLine := longLine f1\<rparr>)
         in if MatchString ellipsis stripped \<and> \<not> ellipsisInComment
            then f2\<lparr>longLine := 1\<rparr> else f2\<lparr>longLine := 0\<rparr>))"

definition ignoreDirective :: "Formatter \<Rightarrow> string \<Rightarrow> Formatter" where
  "ignoreDirective f line =
     (case FindStringSubmatch ignoreCommand line of
        None \<Rightarrow> f
      | Some m \<Rightarrow>
          (if grp m 1 \<noteq> [] then
             (case Atoi (grp m 1) of
                Some v \<Rightarrow> (if v > 1 then f\<lparr>ignoreLines := v\<rparr> else f\<lparr>ignoreLines := 1\<rparr>)
              | None \<Rightarrow> f)
           else f\<lparr>ignoreLines := 1\<rparr>))"

definition closeBlock :: "Formatter \<Rightarrow> int \<times> int \<times> Formatter" where
  "closeBlock f =
     (if istep f \<noteq> [] then
        (last (istep f), - last (istep f) * iwidth f, f\<lparr>istep := butlast (istep f)\<rparr>)
      else if fstep f \<noteq> [] then
        (last (fstep f), - last (fstep f) * iwidth f, f\<lparr>fstep := butlast (fstep f)\<rparr>)
      else if ilvl f > 0 then (1, 0, f)
      else (0, 0, f))"

definition keywordLine :: "Formatter \<Rightarrow> int \<Rightarrow> int \<Rightarrow> string \<Rightarrow> string \<Rightarrow> int \<times> string \<times> Formatter" where
  "keywordLine f offset extra kw rest =
     (case fmt f rest of (t, f1) \<Rightarrow> (offset, indent f extra @ kw @ '' '' @ TrimSpace t, f1))"

definition statementLine :: "Formatter \<Rightarrow> string \<Rightarrow> int \<times> string \<times> Formatter" where
  "statementLine f line =
     (case FindStringSubmatch ctrl1Line line of
        Some m \<Rightarrow>
          (case fmt f (grp m 3) of (t3, f1) \<Rightarrow>
             (case fmt f1 (grp m 6) of (t6, f2) \<Rightarrow>
                (0, indent f 0 @ grp m 2 @ '' '' @ TrimSpace t3 @ '' '' @ grp m 4 @ '' ''
                      @ TrimSpace t6, f2)))
      | None \<Rightarrow>
     (case FindStringSubmatch fcnStart line of
        Some m \<Rightarrow>
          (let f1 = f\<lparr>fstep := fstep f @ [1]\<rparr>;
               offset = (if indentMode f = -1
                         then (if length (fstep f1) > 1 then 1 else 0)
                         else indentMode f)
           in keywordLine f1 offset 0 (grp m 2) (grp m 3))
      | None \<Rightarrow>
     (case FindStringSubmatch ctrlStart line of
        Some m \<Rightarrow> keywordLine (f\<lparr>istep := istep f @ [1]\<rparr>) 1 0 (grp m 2) (grp m 3)
      | None \<Rightarrow>
     (case FindStringSubmatch ctrlStartSwitch line of
        Some m \<Rightarrow> keywordLine (f\<lparr>istep := istep f @ [2]\<rparr>) 2 0 (grp m 2) (grp m 3)
      | None \<Rightarrow>
     (case FindStringSubmatch ctrlCont line of
        Some m \<Rightarrow> keywordLine f 0 (- iwidth f) (grp m 2) (grp m 3)
      | None \<Rightarrow>
     (case FindStringSubmatch ctrlEnd line of
        Some m \<Rightarrow>
          (case closeBlock f of (step, indentExtra, f1) \<Rightarrow>
             keywordLine f1 (- step) indentExtra (grp m 2) (grp m 4))
      | None \<Rightarrow>
          (case fmt f line of (t, f1) \<Rightarrow> (0, indent f 0 @ TrimSpace t, f1))))))))"

definition codeLine :: "Formatter \<Rightarrow> string \<Rightarrow> int \<times> string \<times> Formatter" where
  "codeLine f line =
     (if MatchString ctrlIgnore line then (0, indent f 0 @ TrimSpace line, f)
      else
        (case multilineMatrix f line of (diff, f1) \<Rightarrow>
           if diff \<noteq> 0 \<or> matrix f \<noteq> 0 then
             (case fmt f1 line of (t, f2) \<Rightarrow> (0, indent f1 (matrix f) @ TrimSpace t, f2))
           else
             (case cellArray f1 line of (diff', f2) \<Rightarrow>
                if diff' \<noteq> 0 \<or> cell f1 \<noteq> 0 then
                  (case fmt f2 line of (t, f3) \<Rightarrow> (0, indent f2 (cell f1) @ TrimSpace t, f3))
                else statementLine f2 line)))"

definition formatLine :: "Formatter \<Rightarrow> string \<Rightarrow> int \<times> string \<times> Formatter" where
  "formatLine f line =
     (if ignoreLines f > 0 then
        (0, indent f 0 @ TrimSpace line, f\<lparr>ignoreLines := ignoreLines f - 1\<rparr>)
      else
        (let f1 = continuationState (commentState f line) line
         in if isBlockComment f1 > 0 then (0, TrimRight line line_cutset, f1)
            else if isLineComment f1 = 2 then
              (let f2 = ignoreDirective f1 line in (0, indent f2 0 @ TrimSpace line, f2))
            else codeLine f1 line))"

text \<open>
  \<^verbatim>\<open>FormatLines\<close>: \<open>startIndex\<close> and \<open>endIndex\<close> are \<^verbatim>\<open>startIdx\<close> and \<^verbatim>\<open>endIdx\<close>, \<open>startState\<close>
  is the code from \<^verbatim>\<open>f.resetState()\<close> to the loop, \<open>formatSegment\<close> is the loop over the
  segment with its variables \<^verbatim>\<open>output\<close> and \<^verbatim>\<open>blank\<close>, and \<open>trimTrailingBlank\<close> the loop
  that drops the empty lines at the end.  The error the source returns is always
  \<^verbatim>\<open>nil\<close>; the model returns the lines and the state.
\<close>

fun formatSegment :: "Formatter \<Rightarrow> string list \<Rightarrow> string list \<Rightarrow> bool \<Rightarrow> string list \<times> Formatter" where
  "formatSegment f [] output blank = (output, f)"
| "formatSegment f (rawLine # rest) output blank =
     (if TrimSpace rawLine = [] then
        (if \<not> blank then formatSegment f rest (output @ [[]]) True
         else formatSegment f rest output blank)
      else
        (case formatLine f rawLine of (offset, line, f1) \<Rightarrow>
           (let f2 = f1\<lparr>ilvl := (if ilvl f1 + offset < 0 then 0 else ilvl f1 + offset)\<rparr>;
                output1 = (if separateBlock f2 \<and> offset > 0 \<and> \<not> blank \<and> isLineComment f2 = 0
                           then output @ [[]] else output);
                output2 = output1 @ [TrimRight line line_cutset]
            in if separateBlock f2 \<and> offset < 0
               then formatSegment f2 rest (output2 @ [[]]) True
               else formatSegment f2 rest output2 False)))"

definition trimTrailingBlank :: "string list \<Rightarrow> string list" where
  "trimTrailingBlank out = rev (dropWhile (\<lambda>l. l = []) (rev out))"

definition startIndex :: "Formatter \<Rightarrow> string list \<Rightarrow> nat" where
  "startIndex f lines =
     (let start = (if StartLine (opts f) < 1 then 1 else StartLine (opts f));
          startIdx = start - 1
      in if startIdx > int (length lines) then length lines else nat startIdx)"

definition endIndex :: "Formatter \<Rightarrow> string list \<Rightarrow> nat" where
  "endIndex f lines =
     (let end = EndLine (opts f);
          endIdx = (if end > 0 \<and> end \<le> int (length lines) then nat end else length lines)
      in if endIdx < startIndex f lines then startIndex f lines else endIdx)"

definition startState :: "Formatter \<Rightarrow> string list \<Rightarrow> string list \<times> Formatter" where
  "startState f segment =
     (let f0 = resetState f in
      case segment of
        [] \<Rightarrow> ([[]], f0)
      | first # rest \<Rightarrow>
          (case FindStringSubmatch initialIndent first of
             Some m \<Rightarrow> (grp m 2 # rest, f0\<lparr>ilvl := int (length (grp m 1)) div iwidth f0\<rparr>)
           | None \<Rightarrow> (segment, f0)))"

definition FormatLines :: "Formatter \<Rightarrow> string list \<Rightarrow> string list \<times> Formatter" where
  "FormatLines f lines =
     (let startIdx = startIndex f lines; endIdx = endIndex f lines
      in if startIdx = endIdx then (lines, f)
         else
           (case startState f (drop startIdx (take endIdx lines)) of (segment, f0) \<Rightarrow>
              (case formatSegment f0 segment [] True of (output, f1) \<Rightarrow>
                 (let output1 = (if endIdx = length lines then trimTrailingBlank output else output);
                      output2 = (if output1 = [] then [[]] else output1)
                  in (take startIdx lines @ output2 @ drop endIdx lines, f1)))))"


text \<open>
  \<open>runLines\<close> is the same loop without its variables \<^verbatim>\<open>output\<close> and \<^verbatim>\<open>blank\<close>: for every line
  of the segment, \<open>None\<close> for a blank line and otherwise the offset and the text that
  \<^verbatim>\<open>formatLine\<close> returns, with the state after \<^verbatim>\<open>f.ilvl += offset\<close> (set to 0 when negative),
  in which the next line is formatted.
\<close>

type_synonym lineResult = "(int \<times> string \<times> Formatter) option"

fun runLines :: "Formatter \<Rightarrow> string list \<Rightarrow> lineResult list" where
  "runLines f [] = []"
| "runLines f (rawLine # rest) =
     (if TrimSpace rawLine = [] then None # runLines f rest
      else
        (case formatLine f rawLine of (offset, line, f1) \<Rightarrow>
           (let f2 = f1\<lparr>ilvl := (if ilvl f1 + offset < 0 then 0 else ilvl f1 + offset)\<rparr>
            in Some (offset, line, f2) # runLines f2 rest)))"
text \<open>
  The command-line program builds the formatter with \<^verbatim>\<open>New\<close> and formats with it;
  \<open>formatWith\<close> is that composition.  \<open>defaultFormatter\<close> is the formatter \<^verbatim>\<open>New\<close> returns
  for \<^verbatim>\<open>DefaultOptions()\<close>, written out (\<open>New_DefaultOptions\<close>).
\<close>

definition formatWith :: "Options \<Rightarrow> string list \<Rightarrow> error + string list" where
  "formatWith opt lines =
     (case New opt of Inl e \<Rightarrow> Inl e | Inr f \<Rightarrow> Inr (fst (FormatLines f lines)))"

definition defaultFormatter :: Formatter where
  "defaultFormatter = \<lparr>opts = DefaultOptions, indentMode = 1, operatorSep = 1/2,
     matrixIndent = True, iwidth = 4, separateBlock = True,
     ilvl = 0, istep = [], fstep = [], matrix = 0, cell = 0, isBlockComment = 0,
     isLineComment = 0, longLine = 0, continueLine = 0, isComment = 0, ignoreLines = 0\<rparr>"

lemma New_DefaultOptions: "New DefaultOptions = Inr defaultFormatter"
  by (simp add: New_def DefaultOptions_def defaultFormatter_def indentModes_def
      operatorSpaces_def matrixIndentation_def)

definition classicFormatter :: Formatter where
  "classicFormatter = defaultFormatter\<lparr>opts := DefaultOptions\<lparr>IndentMode := ''classic''\<rparr>,
     indentMode := 0\<rparr>"

lemma New_classic: "New (DefaultOptions\<lparr>IndentMode := ''classic''\<rparr>) = Inr classicFormatter"
  by (simp add: New_def DefaultOptions_def defaultFormatter_def classicFormatter_def
      indentModes_def operatorSpaces_def matrixIndentation_def)



definition insideBlock :: Formatter where
  "insideBlock = defaultFormatter\<lparr>ilvl := 1\<rparr>"

definition twoStrings :: string where
  "twoStrings = [CHR 0x27, CHR ''a'', CHR 0x27, CHR '' '', CHR 0x22, CHR ''b'', CHR ''c'', CHR ''d'',
     CHR 0x22]"


text \<open>
  Closed forms used to state what \<^verbatim>\<open>cellIndent\<close> computes: the text of a line before
  the last occurrence of a character, and the tracked indent after a line with cleaned
  text \<open>c\<close> (the length of the second group of the pattern plus one in the aligned
  mode, the indent width in the simple mode, when more brackets open than close; zero
  when more close than open; the old value otherwise).  A formatter in a block with a
  matrix region open at indent 5 is the state after \<^verbatim>\<open>A = [1\<close> at level 1.
\<close>

definition beforeLast :: "char \<Rightarrow> string \<Rightarrow> string" where
  "beforeLast c s = rev (tl (dropWhile (\<lambda>x. x \<noteq> c) (rev s)))"

definition regionIndent :: "Formatter \<Rightarrow> string \<Rightarrow> char \<Rightarrow> char \<Rightarrow> int \<Rightarrow> int" where
  "regionIndent f c opener closer old =
     (if Count c opener > Count c closer then
        (if matrixIndent f then int (length (beforeLast opener (dropWhile is_space c))) + 1
         else iwidth f)
      else if Count c opener < Count c closer then 0
      else old)"

definition openRegion :: Formatter where
  "openRegion = defaultFormatter\<lparr>ilvl := 1, matrix := 5\<rparr>"

text \<open>
  The placement of the separating blank lines, in the words of the amended claim C3: what
  one line contributes to the output depends on its own result and on the result of the
  line before it in the segment only.  \<open>textBefore prev\<close> says that the line before exists,
  is not blank and is not a closer that the option followed with a blank line.  A blank
  line contributes one empty line if \<open>textBefore\<close>; a formatted line contributes an
  empty line if the option is set, its offset is positive, \<open>textBefore\<close> holds and the
  line-comment counter is 0, then its text without trailing white space, then an empty
  line if the option is set and its offset is negative.  \<open>noDoubleBlank\<close>: no two adjacent
  empty lines; \<open>nonEmptyText\<close>: the text of a formatted line is not empty.
\<close>

definition textBefore :: "lineResult option \<Rightarrow> bool" where
  "textBefore prev =
     (case prev of Some (Some (offset, line, g)) \<Rightarrow> \<not> (separateBlock g \<and> offset < 0) | _ \<Rightarrow> False)"

fun linesFor :: "lineResult option \<Rightarrow> lineResult \<Rightarrow> string list" where
  "linesFor prev None = (if textBefore prev then [[]] else [])"
| "linesFor prev (Some (offset, line, g)) =
     (if separateBlock g \<and> 0 < offset \<and> textBefore prev \<and> isLineComment g = 0 then [[]] else [])
     @ [TrimRight line line_cutset]
     @ (if separateBlock g \<and> offset < 0 then [[]] else [])"

fun separated :: "lineResult option \<Rightarrow> lineResult list \<Rightarrow> string list" where
  "separated prev [] = []"
| "separated prev (r # rs) = linesFor prev r @ separated (Some r) rs"

fun noDoubleBlank :: "string list \<Rightarrow> bool" where
  "noDoubleBlank (x # y # zs) = (\<not> (x = [] \<and> y = []) \<and> noDoubleBlank (y # zs))"
| "noDoubleBlank zs = True"

definition nonEmptyText :: "lineResult \<Rightarrow> bool" where
  "nonEmptyText r = (case r of None \<Rightarrow> True | Some (offset, line, g) \<Rightarrow> TrimRight line line_cutset \<noteq> [])"





text \<open>
  More concrete inputs: the state after \<^verbatim>\<open>if a\<close> at level 0, and a segment of two blocks
  with blank lines.
\<close>

definition ifOpen :: Formatter where
  "ifOpen = defaultFormatter\<lparr>ilvl := 1, istep := [1]\<rparr>"

definition twoBlocks :: "string list" where
  "twoBlocks = [''x'', [], [], ''if a'', ''end'', ''if b'', ''end'', []]"

















section \<open>Lemmas\<close>

subsection \<open>The bounded recursion agrees with \<^verbatim>\<open>format\<close>\<close>

lemma format_fuel_mono:
  "format_fuel n osep part ic = Some r \<Longrightarrow> n \<le> n' \<Longrightarrow> format_fuel n' osep part ic = Some r"
proof (induction n osep part ic arbitrary: n' r rule: format_fuel.induct)
  case (1 osep part ic)
  then show ?case by simp
next
  case (2 n osep part ic)
  from "2.prems"(2) obtain k where n': "n' = Suc k" and nk: "n \<le> k" by (cases n') auto
  show ?case
  proof (cases "extract_part osep part ic")
    case (Pair t ic1)
    show ?thesis
    proof (cases t)
      case None
      with Pair "2.prems" n' show ?thesis by simp
    next
      case (Some lmr)
      obtain l md rt where lmr: "lmr = (l, md, rt)" by (cases lmr) auto
      from "2.prems"(1) Pair Some lmr obtain a ic2 b ic3 where
        a: "format_fuel n osep l ic1 = Some (a, ic2)" and
        b: "format_fuel n osep rt ic2 = Some (b, ic3)" and
        r: "r = (a @ md @ b, ic3)"
        by (auto split: option.splits)
      from "2.IH"(1)[OF Pair[symmetric] Some lmr[symmetric] refl a nk]
      have a': "format_fuel k osep l ic1 = Some (a, ic2)" .
      from "2.IH"(2)[OF Pair[symmetric] Some lmr[symmetric] refl a refl b nk]
      have b': "format_fuel k osep rt ic2 = Some (b, ic3)" .
      from a' b' r Pair Some lmr n' show ?thesis by simp
    qed
  qed
qed

lemma format_fuel_enough:
  "format_fuel (Suc (mu part)) osep part ic = Some (format osep part ic)"
proof (induction osep part ic rule: format.induct)
  case (1 osep part ic)
  show ?case
  proof (cases "extract_part osep part ic")
    case (Pair t ic1)
    show ?thesis
    proof (cases t)
      case None
      with Pair show ?thesis by (simp add: format.simps[of osep part ic])
    next
      case (Some lmr)
      obtain l md rt where lmr: "lmr = (l, md, rt)" by (cases lmr) auto
      have e: "extract_part osep part ic = (Some (l, md, rt), ic1)"
        using Pair Some lmr by simp
      from extract_part_progress[OF e] have lt: "mu l < mu part" "mu rt < mu part" by auto
      obtain a ic2 where fa: "format osep l ic1 = (a, ic2)" by (cases "format osep l ic1")
      obtain b ic3 where fb: "format osep rt ic2 = (b, ic3)" by (cases "format osep rt ic2")
      from "1.IH"(1)[OF Pair[symmetric] Some lmr[symmetric] refl] fa
      have "format_fuel (Suc (mu l)) osep l ic1 = Some (a, ic2)" by simp
      from format_fuel_mono[OF this, of "mu part"] lt
      have a': "format_fuel (mu part) osep l ic1 = Some (a, ic2)" by simp
      from "1.IH"(2)[OF Pair[symmetric] Some lmr[symmetric] refl fa[symmetric]] fb
      have "format_fuel (Suc (mu rt)) osep rt ic2 = Some (b, ic3)" by simp
      from format_fuel_mono[OF this, of "mu part"] lt
      have b': "format_fuel (mu part) osep rt ic2 = Some (b, ic3)" by simp
      from a' b' e fa fb show ?thesis
        by (simp add: format.simps[of osep part ic])
    qed
  qed
qed

subsection \<open>The first word of a line that a keyword pattern matches\<close>

text \<open>
  The classifier's patterns all begin with \<^verbatim>\<open>^(\s*)\<close> and a keyword.  A line they match
  is therefore white space followed by that keyword (\<open>head_generic\<close>), and a line
  that \<^verbatim>\<open>ctrlEnd\<close> matches is matched by none of the patterns tried before it
  (\<open>ctrlEnd_excludes\<close>).
\<close>

inductive_cases rm_SeqE: "rm (Seq r1 r2) b w s' cs cs'"
inductive_cases rm_GrpE: "rm (Grp i r) b w s' cs cs'"
inductive_cases rm_BolE: "rm Bol b w s' cs cs'"
inductive_cases rm_CE: "rm (C c) b w s' cs cs'"
inductive_cases rm_AltE: "rm (Alt r1 r2) b w s' cs cs'"
inductive_cases rm_EmpE: "rm Emp b w s' cs cs'"

lemma rm_Star_cls:
  "rm r b w s' cs cs' \<Longrightarrow> r = Star (C c) \<Longrightarrow> list_all (cls_ok c) w"
proof (induction rule: rm.induct)
  case (rm_StarS r b w1 w2 s' cs cs1 cs2)
  then have "rm (C c) b w1 (w2 @ s') cs cs1" by simp
  then have "list_all (cls_ok c) w1" by (auto elim: rm_CE)
  with rm_StarS show ?case by simp
qed auto

lemma rm_lit: "rm (lit s) b w s' cs cs' \<Longrightarrow> w = s"
proof (induction s arbitrary: b w s' cs cs' rule: lit.induct)
  case 1
  then show ?case by (auto elim: rm_EmpE)
next
  case (2 c)
  then show ?case by (auto elim: rm_CE)
next
  case (3 c v va)
  from "3.prems" obtain w1 w2 b2 sa ca cb where
    w: "w = w1 @ w2" and a: "rm (C (Lit c)) b w1 sa cs ca" and r: "rm (lit (v # va)) b2 w2 s' ca cb"
    by (auto elim!: rm_SeqE)
  from a have "w1 = [c]" by (auto elim: rm_CE)
  moreover from "3.IH"[OF r] have "w2 = v # va" .
  ultimately show ?case using w by simp
qed

lemma rm_kws: "rm (kws K) b w s' cs cs' \<Longrightarrow> w \<in> set K"
  unfolding kws_def
proof (induction K arbitrary: b w s' cs cs')
  case Nil
  then show ?case by (auto elim: rm_CE)
next
  case (Cons k K)
  show ?case
  proof (cases K)
    case Nil
    with Cons.prems show ?thesis by (auto dest: rm_lit)
  next
    case (Cons k' K')
    with Cons.prems have "rm (Alt (lit k) (alts (map lit K))) b w s' cs cs'" by simp
    then show ?thesis using Cons.IH by (auto elim!: rm_AltE dest: rm_lit)
  qed
qed

lemma dropWhile_spaces_head:
  "list_all is_space ws \<Longrightarrow> k \<noteq> [] \<Longrightarrow> \<not> is_space (hd k) \<Longrightarrow>
     dropWhile is_space (ws @ k @ r) = k @ r"
  by (induction ws) (auto simp: neq_Nil_conv)

lemma rm_SeqD:
  "rm (Seq r1 r2) b w s' cs cs' \<Longrightarrow>
     \<exists>w1 w2 c1. w = w1 @ w2 \<and> rm r1 b w1 (w2 @ s') cs c1 \<and> rm r2 (b \<and> w1 = []) w2 s' c1 cs'"
  by (erule rm_SeqE) blast

lemma rm_GrpD:
  "rm (Grp i r) b w s' cs cs' \<Longrightarrow> \<exists>c1. rm r b w s' cs c1 \<and> cs' = c1(i \<mapsto> w)"
  by (erule rm_GrpE) blast

lemma rm_BolD: "rm Bol b w s' cs cs' \<Longrightarrow> b \<and> w = [] \<and> cs' = cs"
  by (erule rm_BolE) simp

lemma head_generic:
  assumes find: "FindStringSubmatch (Seq Bol (Seq (Grp 1 (Star sp)) (Seq X R))) line = Some m"
    and X: "\<And>b w s'' c1 c2. rm X b w s'' c1 c2 \<Longrightarrow> \<exists>k r'. k \<in> set K \<and> w = k @ r'"
    and K: "list_all (\<lambda>k. k \<noteq> [] \<and> \<not> is_space (hd k)) K"
  shows "\<exists>k r. k \<in> set K \<and> dropWhile is_space line = k @ r"
proof -
  from find_sound[OF find] obtain pre w s' where
    l: "line = pre @ w @ s'" and
    m: "rm (Seq Bol (Seq (Grp 1 (Star sp)) (Seq X R))) (pre = []) w s' Map.empty m" by blast
  from rm_SeqD[OF m] obtain w0 wr c1 where
    w: "w = w0 @ wr" and bol: "rm Bol (pre = []) w0 (wr @ s') Map.empty c1" and
    r1: "rm (Seq (Grp 1 (Star sp)) (Seq X R)) (pre = [] \<and> w0 = []) wr s' c1 m"
    by blast
  from rm_BolD[OF bol] have pre: "pre = []" and w0: "w0 = []" by auto
  from rm_SeqD[OF r1] obtain ws wx c2 where
    wr: "wr = ws @ wx" and g1: "rm (Grp 1 (Star sp)) (pre = [] \<and> w0 = []) ws (wx @ s') c1 c2" and
    r2: "rm (Seq X R) ((pre = [] \<and> w0 = []) \<and> ws = []) wx s' c2 m"
    by blast
  from rm_GrpD[OF g1] obtain c1' where "rm (Star sp) (pre = [] \<and> w0 = []) ws (wx @ s') c1 c1'"
    by blast
  from rm_Star_cls[OF this refl] have sp: "list_all is_space ws" by (simp add: list_all_iff)
  from rm_SeqD[OF r2] obtain wk wt c3 where
    wx: "wx = wk @ wt" and x: "rm X ((pre = [] \<and> w0 = []) \<and> ws = []) wk (wt @ s') c2 c3"
    by blast
  from X[OF x] obtain k r' where k: "k \<in> set K" "wk = k @ r'" by blast
  from K k(1) have kn: "k \<noteq> []" "\<not> is_space (hd k)" by (auto simp: list_all_iff)
  have "line = ws @ k @ (r' @ wt @ s')" using l pre w w0 wr wx k(2) by simp
  with dropWhile_spaces_head[OF sp kn] k(1) show ?thesis by metis
qed

lemma kw_head:
  assumes "FindStringSubmatch (Seq Bol (Seq (Grp 1 (Star sp)) (Seq (Grp 2 (kws K)) R))) line = Some m"
    and "list_all (\<lambda>k. k \<noteq> [] \<and> \<not> is_space (hd k)) K"
  shows "\<exists>k r. k \<in> set K \<and> dropWhile is_space line = k @ r"
proof (rule head_generic[OF assms(1) _ assms(2)])
  fix b w s'' c1 c2
  assume "rm (Grp 2 (kws K)) b w s'' c1 c2"
  from rm_GrpD[OF this] obtain c where "rm (kws K) b w s'' c1 c" by blast
  from rm_kws[OF this] show "\<exists>k r'. k \<in> set K \<and> w = k @ r'" by auto
qed

lemma lit_head:
  assumes "FindStringSubmatch (Seq Bol (Seq (Grp 1 (Star sp)) (Seq (lit k) R))) line = Some m"
    and "k \<noteq> []" "\<not> is_space (hd k)"
  shows "\<exists>r. dropWhile is_space line = k @ r"
proof -
  have "\<exists>k' r. k' \<in> set [k] \<and> dropWhile is_space line = k' @ r"
  proof (rule head_generic[OF assms(1)])
    fix b w s'' c1 c2
    assume "rm (lit k) b w s'' c1 c2"
    from rm_lit[OF this] show "\<exists>k' r'. k' \<in> set [k] \<and> w = k' @ r'" by simp
  qed (simp add: assms)
  then show ?thesis by auto
qed

lemma ctrlEnd_head:
  assumes "FindStringSubmatch ctrlEnd line = Some m"
  shows "\<exists>r. dropWhile is_space line = ''end'' @ r"
proof -
  let ?K = "[''end'', ''endfunction'', ''endif'', ''endwhile'', ''endfor'', ''endswitch'']"
  let ?R = "Grp 4 (Alt (seqs [Plus sp, nsp, Star dot]) (Seq (Star sp) Eol))"
  have f: "FindStringSubmatch (Seq Bol (Seq (Grp 1 (Star sp))
        (Seq (Grp 2 (Seq (Grp 3 (kws ?K)) (Opt (lit '';'')))) ?R))) line = Some m"
    using assms by (simp add: ctrlEnd_def)
  have "\<exists>k r. k \<in> set ?K \<and> dropWhile is_space line = k @ r"
  proof (rule head_generic[OF f])
    fix b w s'' c1 c2
    assume "rm (Grp 2 (Seq (Grp 3 (kws ?K)) (Opt (lit '';'')))) b w s'' c1 c2"
    from rm_GrpD[OF this] obtain c where "rm (Seq (Grp 3 (kws ?K)) (Opt (lit '';''))) b w s'' c1 c"
      by blast
    from rm_SeqD[OF this] obtain w1 w2 c' where
      w: "w = w1 @ w2" and g: "rm (Grp 3 (kws ?K)) b w1 (w2 @ s'') c1 c'" by blast
    from rm_GrpD[OF g] obtain c'' where "rm (kws ?K) b w1 (w2 @ s'') c1 c''" by blast
    from rm_kws[OF this] w show "\<exists>k r'. k \<in> set ?K \<and> w = k @ r'" by blast
  qed (simp add: is_space_def)
  then show ?thesis by auto
qed

lemma lineComment_head:
  assumes "FindStringSubmatch lineComment line = Some m"
  shows "\<exists>r. dropWhile is_space line = ''%'' @ r"
proof (rule lit_head)
  show "FindStringSubmatch (Seq Bol (Seq (Grp 1 (Star sp)) (Seq (lit ''%'') (Seq (Star dot) Eol)))) line
      = Some m"
    using assms by (simp add: lineComment_def)
qed (simp_all add: is_space_def)

lemma blockCommentOpen_head:
  assumes "FindStringSubmatch blockCommentOpen line = Some m"
  shows "\<exists>r. dropWhile is_space line = ''%{'' @ r"
proof (rule lit_head)
  show "FindStringSubmatch (Seq Bol (Seq (Grp 1 (Star sp)) (Seq (lit ''%{'') (Seq (Star sp) Eol)))) line
      = Some m"
    using assms by (simp add: blockCommentOpen_def)
qed (simp_all add: is_space_def)

lemma blockCommentClose_head:
  assumes "FindStringSubmatch blockCommentClose line = Some m"
  shows "\<exists>r. dropWhile is_space line = ''%}'' @ r"
proof (rule lit_head)
  show "FindStringSubmatch (Seq Bol (Seq (Grp 1 (Star sp)) (Seq (lit ''%}'') (Seq (Star sp) Eol)))) line
      = Some m"
    using assms by (simp add: blockCommentClose_def)
qed (simp_all add: is_space_def)

lemma ctrlIgnore_head:
  assumes "FindStringSubmatch ctrlIgnore line = Some m"
  shows "\<exists>k r. k \<in> set [''import'', ''clear'', ''clearvars''] \<and> dropWhile is_space line = k @ r"
proof (rule kw_head)
  show "FindStringSubmatch (Seq Bol (Seq (Grp 1 (Star sp))
      (Seq (Grp 2 (kws [''import'', ''clear'', ''clearvars''])) (Grp 3 (Seq (Star dot) Eol))))) line
      = Some m"
    using assms by (simp add: ctrlIgnore_def)
qed (simp add: is_space_def)

lemma ctrl1Line_head:
  assumes "FindStringSubmatch ctrl1Line line = Some m"
  shows "\<exists>k r. k \<in> set [''if'', ''while'', ''for'', ''try''] \<and> dropWhile is_space line = k @ r"
proof (rule kw_head)
  show "FindStringSubmatch (Seq Bol (Seq (Grp 1 (Star sp))
      (Seq (Grp 2 (kws [''if'', ''while'', ''for'', ''try'']))
        (seqs [Grp 3 (seqs [C NWord, Star sp, nsp, Star dot, C NWord]),
     Grp 4 (Seq (Grp 5 (kws [''end'', ''endif'', ''endwhile'', ''endfor''])) (Opt (lit '';''))),
     Grp 6 (Alt (seqs [Plus sp, nsp, Star dot]) (Seq (Star sp) Eol))])))) line
      = Some m"
    using assms by (simp add: ctrl1Line_def)
qed (simp add: is_space_def)

lemma fcnStart_head:
  assumes "FindStringSubmatch fcnStart line = Some m"
  shows "\<exists>k r. k \<in> set [''function'', ''classdef''] \<and> dropWhile is_space line = k @ r"
proof (rule kw_head)
  show "FindStringSubmatch (Seq Bol (Seq (Grp 1 (Star sp))
      (Seq (Grp 2 (kws [''function'', ''classdef''])) (Seq (Star sp) (Grp 3 tail3))))) line = Some m"
    using assms by (simp add: fcnStart_def)
qed (simp add: is_space_def)

lemma ctrlStart_head:
  assumes "FindStringSubmatch ctrlStart line = Some m"
  shows "\<exists>k r. k \<in> set [''if'', ''while'', ''for'', ''parfor'', ''try'', ''methods'', ''properties'',
                 ''events'', ''arguments'', ''enumeration'', ''spmd''] \<and> dropWhile is_space line = k @ r"
proof (rule kw_head)
  show "FindStringSubmatch (Seq Bol (Seq (Grp 1 (Star sp))
      (Seq (Grp 2 (kws [''if'', ''while'', ''for'', ''parfor'', ''try'', ''methods'', ''properties'',
                 ''events'', ''arguments'', ''enumeration'', ''spmd''])) (Seq (Star sp) (Grp 3 tail3))))) line = Some m"
    using assms by (simp add: ctrlStart_def)
qed (simp add: is_space_def)

lemma ctrlStartSwitch_head:
  assumes "FindStringSubmatch ctrlStartSwitch line = Some m"
  shows "\<exists>r. dropWhile is_space line = ''switch'' @ r"
proof -
  have "\<exists>k r. k \<in> set [''switch''] \<and> dropWhile is_space line = k @ r"
  proof (rule head_generic)
    show "FindStringSubmatch (Seq Bol (Seq (Grp 1 (Star sp))
      (Seq (Grp 2 (lit ''switch'')) (Seq (Star sp) (Grp 3 tail3))))) line = Some m"
      using assms by (simp add: ctrlStartSwitch_def)
  next
    fix b w s'' c1 c2
    assume "rm (Grp 2 (lit ''switch'')) b w s'' c1 c2"
    from rm_GrpD[OF this] obtain c where "rm (lit ''switch'') b w s'' c1 c" by blast
    from rm_lit[OF this] show "\<exists>k r'. k \<in> set [''switch''] \<and> w = k @ r'" by simp
  qed (simp add: is_space_def)
  then show ?thesis by auto
qed

lemma ctrlCont_head:
  assumes "FindStringSubmatch ctrlCont line = Some m"
  shows "\<exists>k r. k \<in> set [''elseif'', ''else'', ''case'', ''otherwise'', ''catch''] \<and> dropWhile is_space line = k @ r"
proof (rule kw_head)
  show "FindStringSubmatch (Seq Bol (Seq (Grp 1 (Star sp))
      (Seq (Grp 2 (kws [''elseif'', ''else'', ''case'', ''otherwise'', ''catch''])) (Seq (Star sp) (Grp 3 tail3))))) line = Some m"
    using assms by (simp add: ctrlCont_def)
qed (simp add: is_space_def)

lemma ctrlEnd_excludes:
  assumes "FindStringSubmatch ctrlEnd line = Some m"
  shows "\<not> MatchString lineComment line" "\<not> MatchString blockCommentOpen line"
    "\<not> MatchString blockCommentClose line" "\<not> MatchString ctrlIgnore line"
    "FindStringSubmatch ctrl1Line line = None" "FindStringSubmatch fcnStart line = None"
    "FindStringSubmatch ctrlStart line = None" "FindStringSubmatch ctrlStartSwitch line = None"
    "FindStringSubmatch ctrlCont line = None"
proof -
  from ctrlEnd_head[OF assms] obtain r where e: "dropWhile is_space line = ''end'' @ r" ..
  show "\<not> MatchString lineComment line"
    using e unfolding MatchString_def
    by (cases "FindStringSubmatch lineComment line") (auto dest!: lineComment_head)
  show "\<not> MatchString blockCommentOpen line"
    using e unfolding MatchString_def
    by (cases "FindStringSubmatch blockCommentOpen line") (auto dest!: blockCommentOpen_head)
  show "\<not> MatchString blockCommentClose line"
    using e unfolding MatchString_def
    by (cases "FindStringSubmatch blockCommentClose line") (auto dest!: blockCommentClose_head)
  show "\<not> MatchString ctrlIgnore line"
    using e unfolding MatchString_def
    by (cases "FindStringSubmatch ctrlIgnore line") (auto dest!: ctrlIgnore_head)
  show "FindStringSubmatch ctrl1Line line = None"
    using e by (cases "FindStringSubmatch ctrl1Line line") (auto dest!: ctrl1Line_head)
  show "FindStringSubmatch fcnStart line = None"
    using e by (cases "FindStringSubmatch fcnStart line") (auto dest!: fcnStart_head)
  show "FindStringSubmatch ctrlStart line = None"
    using e by (cases "FindStringSubmatch ctrlStart line") (auto dest!: ctrlStart_head)
  show "FindStringSubmatch ctrlStartSwitch line = None"
    using e by (cases "FindStringSubmatch ctrlStartSwitch line") (auto dest!: ctrlStartSwitch_head)
  show "FindStringSubmatch ctrlCont line = None"
    using e by (cases "FindStringSubmatch ctrlCont line") (auto dest!: ctrlCont_head)
qed

subsection \<open>The text of the normalizer does not depend on \<^verbatim>\<open>isComment\<close>\<close>

lemma extractStringOrComment_fst:
  "fst (extractStringOrComment part ic) = fst (extractStringOrComment part ic')"
  by (simp add: extractStringOrComment_def Let_def split: option.splits)

lemma extract_part_fst: "fst (extract_part osep part ic) = fst (extract_part osep part ic')"
  using extractStringOrComment_fst[of part ic ic']
  by (auto simp: extract_part_def split: prod.splits option.splits)

lemma clean_fst:
  "fst (cleanLineFromStringsAndComments line ic) = fst (cleanLineFromStringsAndComments line ic')"
proof (induction line ic arbitrary: ic' rule: cleanLineFromStringsAndComments.induct)
  case (1 line ic)
  obtain t ic1 where e: "extractStringOrComment line ic = (t, ic1)"
    by (cases "extractStringOrComment line ic")
  obtain t' ic1' where e': "extractStringOrComment line ic' = (t', ic1')"
    by (cases "extractStringOrComment line ic'")
  from extractStringOrComment_fst[of line ic ic'] e e' have tt: "t' = t" by simp
  show ?case
  proof (cases t)
    case None
    with e e' tt show ?thesis
      by (simp add: cleanLineFromStringsAndComments.simps[of line])
  next
    case (Some lmr)
    obtain l md r where lmr: "lmr = (l, md, r)" by (cases lmr) auto
    obtain a ic2 where a: "cleanLineFromStringsAndComments l ic1 = (a, ic2)"
      by (cases "cleanLineFromStringsAndComments l ic1")
    obtain a' ic2' where a': "cleanLineFromStringsAndComments l ic1' = (a', ic2')"
      by (cases "cleanLineFromStringsAndComments l ic1'")
    from "1.IH"(1)[OF e[symmetric] Some lmr[symmetric] refl, of ic1'] a a' have aa: "a' = a" by simp
    from "1.IH"(2)[OF e[symmetric] Some lmr[symmetric] refl a[symmetric], of ic2']
    have "fst (cleanLineFromStringsAndComments r ic2) = fst (cleanLineFromStringsAndComments r ic2')" .
    with e e' tt Some lmr a a' aa show ?thesis
      by (auto simp: cleanLineFromStringsAndComments.simps[of line] split: prod.splits)
  qed
qed

lemma format_fst: "fst (format osep part ic) = fst (format osep part ic')"
proof (induction osep part ic arbitrary: ic' rule: format.induct)
  case (1 osep part ic)
  obtain t ic1 where e: "extract_part osep part ic = (t, ic1)"
    by (cases "extract_part osep part ic")
  obtain t' ic1' where e': "extract_part osep part ic' = (t', ic1')"
    by (cases "extract_part osep part ic'")
  from extract_part_fst[of osep part ic ic'] e e' have tt: "t' = t" by simp
  show ?case
  proof (cases t)
    case None
    with e e' tt show ?thesis by (simp add: format.simps[of osep part])
  next
    case (Some lmr)
    obtain l md r where lmr: "lmr = (l, md, r)" by (cases lmr) auto
    obtain a ic2 where a: "format osep l ic1 = (a, ic2)" by (cases "format osep l ic1")
    obtain a' ic2' where a': "format osep l ic1' = (a', ic2')" by (cases "format osep l ic1'")
    from "1.IH"(1)[OF e[symmetric] Some lmr[symmetric] refl, of ic1'] a a' have aa: "a' = a" by simp
    from "1.IH"(2)[OF e[symmetric] Some lmr[symmetric] refl a[symmetric], of ic2']
    have "fst (format osep r ic2) = fst (format osep r ic2')" .
    with e e' tt Some lmr a a' aa show ?thesis
      by (auto simp: format.simps[of osep part] split: prod.splits)
  qed
qed

lemma commentState_fields [simp]:
  "ilvl (commentState f line) = ilvl f" "istep (commentState f line) = istep f"
  "fstep (commentState f line) = fstep f" "matrix (commentState f line) = matrix f"
  "cell (commentState f line) = cell f" "iwidth (commentState f line) = iwidth f"
  "operatorSep (commentState f line) = operatorSep f"
  "matrixIndent (commentState f line) = matrixIndent f"
  "indentMode (commentState f line) = indentMode f"
  "ignoreLines (commentState f line) = ignoreLines f"
  "longLine (commentState f line) = longLine f"
  by (simp_all add: commentState_def Let_def)

lemma continuationState_fields [simp]:
  "ilvl (continuationState f line) = ilvl f" "istep (continuationState f line) = istep f"
  "fstep (continuationState f line) = fstep f" "matrix (continuationState f line) = matrix f"
  "cell (continuationState f line) = cell f" "iwidth (continuationState f line) = iwidth f"
  "operatorSep (continuationState f line) = operatorSep f"
  "matrixIndent (continuationState f line) = matrixIndent f"
  "indentMode (continuationState f line) = indentMode f"
  "ignoreLines (continuationState f line) = ignoreLines f"
  "isBlockComment (continuationState f line) = isBlockComment f"
  "isLineComment (continuationState f line) = isLineComment f"
  by (simp_all add: continuationState_def Let_def split: prod.splits)

lemma indent_cong:
  "ilvl f = ilvl g \<Longrightarrow> continueLine f = continueLine g \<Longrightarrow> iwidth f = iwidth g \<Longrightarrow>
     indent f e = indent g e"
  by (simp add: indent_def)

lemma cellIndent_balanced:
  assumes "Count (fst (cleanLineFromStringsAndComments line 0)) opener
         = Count (fst (cleanLineFromStringsAndComments line 0)) closer"
  shows "cellIndent f line opener closer ind =
     (0, ind, f\<lparr>isComment := snd (cleanLineFromStringsAndComments line (isComment f))\<rparr>)"
proof -
  obtain cleaned ic where c: "cleanLineFromStringsAndComments line (isComment f) = (cleaned, ic)"
    by (cases "cleanLineFromStringsAndComments line (isComment f)")
  with clean_fst[of line "isComment f" 0]
  have "cleaned = fst (cleanLineFromStringsAndComments line 0)" by simp
  with assms have "Count cleaned opener = Count cleaned closer" by simp
  with c show ?thesis by (simp add: cellIndent_def Let_def)
qed

subsection \<open>Greedy stars and the leading white space\<close>

lemma star_cls_greedy:
  "k (b \<and> takeWhile (cls_ok c) s = []) (dropWhile (cls_ok c) s) cs = Some r \<Longrightarrow>
     bt (Star (C c)) b s cs k = Some r"
proof (induction s arbitrary: b)
  case Nil
  then show ?case by simp
next
  case (Cons x xs)
  show ?case
  proof (cases "cls_ok c x")
    case True
    with Cons.prems have "k (False \<and> takeWhile (cls_ok c) xs = []) (dropWhile (cls_ok c) xs) cs = Some r"
      by simp
    from Cons.IH[OF this] True show ?thesis by simp
  next
    case False
    with Cons.prems show ?thesis by simp
  qed
qed


subsection \<open>The driver\<close>









lemma mu_less_neq: "mu a < mu b \<Longrightarrow> a \<noteq> b"
  by auto


subsection \<open>The bracket pattern and the tracked indent\<close>

lemma beforeLast_split: "c \<notin> set v \<Longrightarrow> beforeLast c (u @ c # v) = u"
proof -
  assume "c \<notin> set v"
  then have "dropWhile (\<lambda>x. x \<noteq> c) (rev v) = []" by (auto simp: dropWhile_eq_Nil_conv)
  then show ?thesis by (simp add: beforeLast_def dropWhile_append)
qed

lemma star_all_fail:
  "(\<And>p q b'. s = p @ q \<Longrightarrow> k b' q cs = None) \<Longrightarrow> bt (Star (C c)) b s cs k = None"
proof (induction s arbitrary: b)
  case Nil
  then show ?case by simp
next
  case (Cons x xs)
  have "bt (Star (C c)) False xs cs k = None"
  proof (rule Cons.IH)
    fix p q b' assume "xs = p @ q"
    then have "x # xs = (x # p) @ q" by simp
    from Cons.prems[OF this] show "k b' q cs = None" .
  qed
  moreover have "k b (x # xs) cs = None" using Cons.prems[of "[]" "x # xs"] by simp
  ultimately show ?case by simp
qed

lemma star_last:
  "list_all (cls_ok c) u \<Longrightarrow> (\<And>p q b'. s0 = p @ q \<Longrightarrow> p \<noteq> [] \<Longrightarrow> k b' q cs = None) \<Longrightarrow>
     k (b \<and> u = []) s0 cs = Some r \<Longrightarrow> bt (Star (C c)) b (u @ s0) cs k = Some r"
proof (induction u arbitrary: b)
  case Nil
  show ?case
  proof (cases s0)
    case Nil
    with Nil.prems show ?thesis by simp
  next
    case (Cons y ys)
    have "bt (Star (C c)) False ys cs k = None"
    proof (rule star_all_fail)
      fix p q b' assume "ys = p @ q"
      then have "s0 = (y # p) @ q" using Cons by simp
      from Nil.prems(2)[OF this] show "k b' q cs = None" by simp
    qed
    with Nil.prems(3) Cons show ?thesis by simp
  qed
next
  case (Cons y us)
  from Cons.prems(1) have y: "cls_ok c y" and us: "list_all (cls_ok c) us" by simp_all
  from Cons.prems(3) have "k (False \<and> us = []) s0 cs = Some r" by simp
  from Cons.IH[OF us Cons.prems(2) this] y show ?case by simp
qed


lemma cellTail_at:
  assumes "CHR 0x0A \<notin> set v"
  shows "bt (Grp 4 (Seq (C (Lit c)) (Seq (Star dot) Eol))) b (c # v) cs (\<lambda>b' s' cs'. Some cs')
           = Some (cs(4 \<mapsto> c # v))"
proof -
  have nl: "takeWhile (cls_ok Dot) v = v" "dropWhile (cls_ok Dot) v = []"
    using assms by (auto simp: takeWhile_eq_all_conv)
  show ?thesis
    apply (simp del: bt.simps(7,8))
    apply (rule star_cls_greedy)
    apply (simp add: nl)
    done
qed

lemma cellTail_not_at:
  "s = [] \<or> hd s \<noteq> c \<Longrightarrow>
     bt (Grp 4 (Seq (C (Lit c)) (Seq (Star dot) Eol))) b s cs (\<lambda>b' s' cs'. Some cs') = None"
  by (cases s) (auto simp del: bt.simps(7,8))

lemma in_dropWhile_spaces: "c \<in> set s \<Longrightarrow> \<not> is_space c \<Longrightarrow> c \<in> set (dropWhile is_space s)"
  by (induction s) auto

lemma cell_body_step:
  "bt (Seq (Grp 2 (Opt (Grp 3 (Seq nsp (Star dot))))) G4) b (x # xs) cs K =
     (if is_space x then bt G4 b (x # xs) (cs(2 \<mapsto> [])) K
      else case bt (Star dot) False xs cs
                  (\<lambda>b' s' cs'. bt G4 b' s'
                     (cs'(3 \<mapsto> take (Suc (length xs) - length s') (x # xs),
                          2 \<mapsto> take (Suc (length xs) - length s') (x # xs))) K) of
             Some r \<Rightarrow> Some r
           | None \<Rightarrow> bt G4 b (x # xs) (cs(2 \<mapsto> [])) K)"
  by (simp del: bt.simps(7,8) add: Opt_def split: option.split)

lemma cell_head_step:
  "bt (Seq (Grp 1 (Star sp)) R) True s Map.empty K =
     bt (Star sp) True s Map.empty
       (\<lambda>b' s' cs'. bt R b' s' (cs'(1 \<mapsto> take (length s - length s') s)) K)"
  by (simp del: bt.simps(7,8))

lemma cellPattern_match:
  assumes cin: "c \<in> set s" and nl: "CHR 0x0A \<notin> set s" and ns: "\<not> is_space c"
  shows "\<exists>m. FindStringSubmatch (cellPattern c) s = Some m \<and>
              grp m 2 = beforeLast c (dropWhile is_space s)"
proof -
  let ?ws = "takeWhile is_space s" and ?t = "dropWhile is_space s"
  let ?K = "\<lambda>(b'::bool) (s'::string) (cs'::caps). Some cs'"
  define G4 where "G4 = Grp 4 (Seq (C (Lit c)) (Seq (Star dot) Eol))"
  define R where "R = Seq (Grp 2 (Opt (Grp 3 (Seq nsp (Star dot))))) G4"
  have at: "\<And>v b cs. CHR 0x0A \<notin> set v \<Longrightarrow> bt G4 b (c # v) cs ?K = Some (cs(4 \<mapsto> c # v))"
    unfolding G4_def by (rule cellTail_at)
  have not_at: "\<And>q b cs. q = [] \<or> hd q \<noteq> c \<Longrightarrow> bt G4 b q cs ?K = None"
    unfolding G4_def by (rule cellTail_not_at)
  from in_dropWhile_spaces[OF cin ns] have "c \<in> set ?t" .
  from split_list_last[OF this] obtain u v where t: "?t = u @ c # v" and cv: "c \<notin> set v" by blast
  have nlt: "CHR 0x0A \<notin> set ?t" using nl by (auto dest: set_dropWhileD)
  with t have nlu: "CHR 0x0A \<notin> set u" and nlv: "CHR 0x0A \<notin> set v" by auto
  have sp: "takeWhile (cls_ok Space) s = ?ws" "dropWhile (cls_ok Space) s = ?t"
    by (simp_all add: cls_ok.simps[abs_def])
  have fail_v: "\<And>p q b' cs'. v = p @ q \<Longrightarrow> bt G4 b' q cs' ?K = None"
  proof -
    fix p q b' cs' assume "v = p @ q"
    with cv have "q = [] \<or> hd q \<noteq> c" by (cases q) auto
    then show "bt G4 b' q cs' ?K = None" by (rule not_at)
  qed
  have "\<exists>m. bt R (?ws = []) ?t [1 \<mapsto> ?ws] ?K = Some m \<and> grp m 2 = u"
  proof (cases u)
    case Nil
    with t have tt: "?t = c # v" by simp
    have "bt (Star dot) False v [1 \<mapsto> ?ws]
            (\<lambda>b' s' cs'. bt G4 b' s'
                     (cs'(3 \<mapsto> take (Suc (length v) - length s') (c # v),
                          2 \<mapsto> take (Suc (length v) - length s') (c # v))) ?K) = None"
      by (rule star_all_fail) (rule fail_v)
    then have "bt R (?ws = []) (c # v) [1 \<mapsto> ?ws] ?K
        = bt G4 (?ws = []) (c # v) [1 \<mapsto> ?ws, 2 \<mapsto> []] ?K"
      unfolding R_def cell_body_step using ns by simp
    also have "\<dots> = Some ([1 \<mapsto> ?ws, 2 \<mapsto> []](4 \<mapsto> c # v))"
      by (rule at[OF nlv])
    finally show ?thesis using Nil tt by (auto simp: grp_def)
  next
    case (Cons x u')
    with t have tt: "?t = x # u' @ c # v" by simp
    have xs: "\<not> is_space x"
      using tt by (metis hd_dropWhile list.distinct(1) list.sel(1))
    let ?k = "\<lambda>b' s' cs'. bt G4 b' s'
                     (cs'(3 \<mapsto> take (Suc (length (u' @ c # v)) - length s') (x # u' @ c # v),
                          2 \<mapsto> take (Suc (length (u' @ c # v)) - length s') (x # u' @ c # v))) ?K"
    have tk: "take (Suc (length (u' @ c # v)) - length (c # v)) (x # u' @ c # v) = u"
      using Cons by simp
    have "bt (Star dot) False (u' @ c # v) [1 \<mapsto> ?ws] ?k
        = Some ([1 \<mapsto> ?ws, 3 \<mapsto> u, 2 \<mapsto> u](4 \<mapsto> c # v))"
    proof (rule star_last)
      show "list_all (cls_ok Dot) u'" using nlu Cons by (auto simp: list_all_iff)
    next
      fix p q b' assume "c # v = p @ q" "p \<noteq> []"
      then obtain p' where "v = p' @ q" by (cases p) auto
      from fail_v[OF this] show "?k b' q [1 \<mapsto> ?ws] = None" .
    next
      show "?k (False \<and> u' = []) (c # v) [1 \<mapsto> ?ws]
          = Some ([1 \<mapsto> ?ws, 3 \<mapsto> u, 2 \<mapsto> u](4 \<mapsto> c # v))"
        unfolding tk by (rule at[OF nlv])
    qed
    then have "bt R (?ws = []) (x # u' @ c # v) [1 \<mapsto> ?ws] ?K
        = Some ([1 \<mapsto> ?ws, 3 \<mapsto> u, 2 \<mapsto> u](4 \<mapsto> c # v))"
      unfolding R_def cell_body_step using xs by simp
    then show ?thesis using tt by (auto simp: grp_def)
  qed
  then obtain m where m: "bt R (?ws = []) ?t [1 \<mapsto> ?ws] ?K = Some m"
    and g: "grp m 2 = u" by blast
  have len: "length s - length ?t = length ?ws"
    by (metis add_diff_cancel_right' length_append takeWhile_dropWhile_id)
  have tk1: "take (length s - length ?t) s = ?ws"
    unfolding len by (metis append_eq_conv_conj takeWhile_dropWhile_id)
  have cp: "cellPattern c = Seq (Grp 1 (Star sp)) R"
    by (simp add: cellPattern_def R_def G4_def)
  have "bt (cellPattern c) True s Map.empty ?K = Some m"
    unfolding cp cell_head_step
    apply (rule star_cls_greedy)
    using m apply (simp add: sp tk1)
    done
  then have "FindStringSubmatch (cellPattern c) s = Some m" by (simp add: FindStringSubmatch_def)
  with g beforeLast_split[OF cv, of u] t show ?thesis by simp
qed

lemma Count_pos_in: "Count s c > Count s d \<Longrightarrow> c \<in> set s"
proof (rule ccontr)
  assume a: "Count s d < Count s c" and n: "c \<notin> set s"
  from n have "filter (\<lambda>x. x = c) s = []" by (induction s) auto
  with a show False by (simp add: Count_def)
qed

lemma cellIndent_value:
  assumes nl: "CHR 0x0A \<notin> set (fst (cleanLineFromStringsAndComments line 0))"
    and ns: "\<not> is_space opener"
  shows "cellIndent f line opener closer ind =
     (Count (fst (cleanLineFromStringsAndComments line 0)) opener
        - Count (fst (cleanLineFromStringsAndComments line 0)) closer,
      regionIndent f (fst (cleanLineFromStringsAndComments line 0)) opener closer ind,
      f\<lparr>isComment := snd (cleanLineFromStringsAndComments line (isComment f))\<rparr>)"
proof -
  let ?c = "fst (cleanLineFromStringsAndComments line 0)"
  obtain cleaned ic where c: "cleanLineFromStringsAndComments line (isComment f) = (cleaned, ic)"
    by (cases "cleanLineFromStringsAndComments line (isComment f)")
  with clean_fst[of line "isComment f" 0] have cc: "cleaned = ?c" by simp
  show ?thesis
  proof (cases "Count ?c opener > Count ?c closer")
    case True
    from Count_pos_in[OF True] have "opener \<in> set ?c" .
    from cellPattern_match[OF this nl ns] obtain m where
      "FindStringSubmatch (cellPattern opener) ?c = Some m"
      "grp m 2 = beforeLast opener (dropWhile is_space ?c)" by blast
    with c cc True show ?thesis
      by (simp add: cellIndent_def Let_def regionIndent_def)
  next
    case False
    with c cc show ?thesis
      by (simp add: cellIndent_def Let_def regionIndent_def)
  qed
qed

lemma code_line_reached:
  assumes "ignoreLines f \<le> 0" "isBlockComment f \<le> 1" "isLineComment f \<le> 2"
    and "\<not> MatchString lineComment line" "\<not> MatchString blockCommentOpen line"
    and "\<not> MatchString blockCommentClose line"
  shows "formatLine f line = codeLine (continuationState (commentState f line) line) line"
proof -
  have "isBlockComment (commentState f line) \<le> 0" "isLineComment (commentState f line) \<noteq> 2"
    using assms by (auto simp: commentState_def Let_def)
  then show ?thesis using assms(1) by (simp add: formatLine_def Let_def)
qed

lemma fmt_text:
  "fmt f part = (fst (format (operatorSep f) part 0),
                 f\<lparr>isComment := snd (format (operatorSep f) part (isComment f))\<rparr>)"
  using format_fst[of "operatorSep f" part "isComment f" 0]
  by (cases "format (operatorSep f) part (isComment f)") (simp add: fmt_def)


subsection \<open>The keyword a pattern captures, and the column of a line in the reset state\<close>


















lemma ignoreDirective_fields [simp]:
  "ilvl (ignoreDirective f line) = ilvl f" "iwidth (ignoreDirective f line) = iwidth f"
  "continueLine (ignoreDirective f line) = continueLine f"
  by (simp_all add: ignoreDirective_def split: option.splits)






subsection \<open>The loop of the driver and the placement of blank lines\<close>

lemma formatSegment_separated:
  "blank = (\<not> textBefore prev) \<Longrightarrow>
   fst (formatSegment f segment outp blank) = outp @ separated prev (runLines f segment)"
proof (induction segment arbitrary: f outp blank prev)
  case Nil
  then show ?case by simp
next
  case (Cons rawLine rest)
  show ?case
  proof (cases "TrimSpace rawLine = []")
    case True
    show ?thesis
    proof (cases blank)
      case True
      with \<open>TrimSpace rawLine = []\<close> Cons.prems Cons.IH[of True "Some None" f outp]
      show ?thesis by (simp add: textBefore_def)
    next
      case False
      with \<open>TrimSpace rawLine = []\<close> Cons.prems Cons.IH[of True "Some None" f "outp @ [[]]"]
      show ?thesis by (simp add: textBefore_def)
    qed
  next
    case False
    obtain offset line f1 where fl: "formatLine f rawLine = (offset, line, f1)"
      by (cases "formatLine f rawLine") auto
    define f2 where "f2 = f1\<lparr>ilvl := (if ilvl f1 + offset < 0 then 0 else ilvl f1 + offset)\<rparr>"
    define o1 where "o1 = (if separateBlock f2 \<and> offset > 0 \<and> \<not> blank \<and> isLineComment f2 = 0
                then outp @ [[]] else outp)"
    define o2 where "o2 = o1 @ [TrimRight line line_cutset]"
    have rl: "runLines f (rawLine # rest) = Some (offset, line, f2) # runLines f2 rest"
      using False fl by (simp add: f2_def Let_def)
    show ?thesis
    proof (cases "separateBlock f2 \<and> offset < 0")
      case True
      then have "formatSegment f (rawLine # rest) outp blank = formatSegment f2 rest (o2 @ [[]]) True"
        using False fl by (auto simp: f2_def o1_def o2_def Let_def)
      moreover have "fst (formatSegment f2 rest (o2 @ [[]]) True)
          = (o2 @ [[]]) @ separated (Some (Some (offset, line, f2))) (runLines f2 rest)"
        using True by (intro Cons.IH) (simp add: textBefore_def)
      ultimately show ?thesis using True Cons.prems
        by (simp add: rl o2_def o1_def del: formatSegment.simps runLines.simps)
    next
      case nc: False
      then have "formatSegment f (rawLine # rest) outp blank = formatSegment f2 rest o2 False"
        using False fl by (auto simp: f2_def o1_def o2_def Let_def)
      moreover have "fst (formatSegment f2 rest o2 False)
          = o2 @ separated (Some (Some (offset, line, f2))) (runLines f2 rest)"
        using nc by (intro Cons.IH) (simp add: textBefore_def)
      ultimately show ?thesis using nc Cons.prems
        by (simp add: rl o2_def o1_def del: formatSegment.simps runLines.simps)
    qed
  qed
qed

lemma noDoubleBlank_snoc:
  "noDoubleBlank (xs @ [y]) = (noDoubleBlank xs \<and> (xs = [] \<or> \<not> (last xs = [] \<and> y = [])))"
  by (induction xs rule: noDoubleBlank.induct) auto

lemma separated_invariant:
  "list_all nonEmptyText rs \<Longrightarrow> noDoubleBlank outp \<Longrightarrow> (outp \<noteq> [] \<longrightarrow> hd outp \<noteq> []) \<Longrightarrow>
   textBefore prev = (outp \<noteq> [] \<and> last outp \<noteq> []) \<Longrightarrow>
   noDoubleBlank (outp @ separated prev rs) \<and>
   (outp @ separated prev rs \<noteq> [] \<longrightarrow> hd (outp @ separated prev rs) \<noteq> [])"
proof (induction rs arbitrary: outp prev)
  case Nil
  then show ?case by simp
next
  case (Cons r rs)
  have rest: "list_all nonEmptyText rs" using Cons.prems(1) by simp
  have step: "noDoubleBlank (outp @ linesFor prev r) \<and>
      (outp @ linesFor prev r \<noteq> [] \<longrightarrow> hd (outp @ linesFor prev r) \<noteq> []) \<and>
      textBefore (Some r) = (outp @ linesFor prev r \<noteq> [] \<and> last (outp @ linesFor prev r) \<noteq> [])"
  proof (cases r)
    case None
    with Cons.prems show ?thesis
      by (cases "outp = []") (auto simp: textBefore_def noDoubleBlank_snoc hd_append)
  next
    case (Some t)
    obtain offset line g where t: "t = (offset, line, g)" by (cases t) auto
    have ne: "TrimRight line line_cutset \<noteq> []"
      using Cons.prems(1) Some t by (simp add: nonEmptyText_def)
    show ?thesis
    proof (cases "outp = []")
      case True
      with Cons.prems ne Some t show ?thesis by (auto simp: textBefore_def)
    next
      case False
      have a: "outp @ [[], TrimRight line line_cutset, []] = ((outp @ [[]]) @ [TrimRight line line_cutset]) @ [[]]"
        "outp @ [[], TrimRight line line_cutset] = (outp @ [[]]) @ [TrimRight line line_cutset]"
        "outp @ [TrimRight line line_cutset, []] = (outp @ [TrimRight line line_cutset]) @ [[]]"
        by simp_all
      from False Cons.prems ne Some t show ?thesis
        by (auto simp: textBefore_def a noDoubleBlank_snoc hd_append simp del: append_assoc)
    qed
  qed
  from Cons.IH[OF rest, of "outp @ linesFor prev r" "Some r"] step
  show ?case by simp
qed

lemma trimTrailingBlank_Nil [simp]: "trimTrailingBlank [] = []"
  by (simp add: trimTrailingBlank_def)


subsection \<open>Patterns that cannot match for lack of a character\<close>











subsection \<open>The match of an operator pattern between two words\<close>











subsection \<open>The normalizer on a simple statement\<close>











subsection \<open>The line engine and the driver on simple statements\<close>






















subsection \<open>Runs on concrete lines\<close>

lemma closer_inside_block:
  "formatLine insideBlock ''end'' = (- 1, ''    end '', insideBlock)"
  unfolding insideBlock_def by code_simp

lemma end_matches: "MatchString ctrlEnd ''end''"
  by code_simp

lemma end_without_brackets:
  "Count (fst (cleanLineFromStringsAndComments ''end'' 0)) (CHR ''['')
     = Count (fst (cleanLineFromStringsAndComments ''end'' 0)) (CHR '']'')"
  "Count (fst (cleanLineFromStringsAndComments ''end'' 0)) (CHR ''{'')
     = Count (fst (cleanLineFromStringsAndComments ''end'' 0)) (CHR ''}'')"
  by code_simp+


lemma region_lines_code:
  "\<not> MatchString lineComment ''A =   [1''" "\<not> MatchString blockCommentOpen ''A =   [1''"
  "\<not> MatchString blockCommentClose ''A =   [1''" "\<not> MatchString ctrlIgnore ''A =   [1''"
  "\<not> MatchString lineComment ''2]''" "\<not> MatchString blockCommentOpen ''2]''"
  "\<not> MatchString blockCommentClose ''2]''" "\<not> MatchString ctrlIgnore ''2]''"
  "\<not> MatchString lineComment ''c = {1''" "\<not> MatchString blockCommentOpen ''c = {1''"
  "\<not> MatchString blockCommentClose ''c = {1''" "\<not> MatchString ctrlIgnore ''c = {1''"
  by code_simp+

lemma region_lines_clean:
  "fst (cleanLineFromStringsAndComments ''A =   [1'' 0) = ''A =   [1''"
  "fst (cleanLineFromStringsAndComments ''2]'' 0) = ''2]''"
  "fst (cleanLineFromStringsAndComments ''c = {1'' 0) = ''c = {1''"
  by code_simp+

lemma region_lines_text:
  "TrimSpace (fst (format (1/2) ''A =   [1'' 0)) = ''A = [1''"
  "TrimSpace (fst (format (1/2) ''2]'' 0)) = ''2]''"
  "TrimSpace (fst (format (1/2) ''c = {1'' 0)) = ''c = {1''"
  by code_simp+

lemma region_lines_indent:
  "regionIndent defaultFormatter ''A =   [1'' (CHR ''['') (CHR '']'') 0 = 7"
  "regionIndent openRegion ''2]'' (CHR ''['') (CHR '']'') 5 = 0"
  "regionIndent defaultFormatter ''c = {1'' (CHR ''{'') (CHR ''}'') 0 = 5"
  "Count ''c = {1'' (CHR ''['') = Count ''c = {1'' (CHR '']'')"
  "Count ''c = {1'' (CHR ''{'') \<noteq> Count ''c = {1'' (CHR ''}'')"
  "Count ''A =   [1'' (CHR ''['') \<noteq> Count ''A =   [1'' (CHR '']'')"
  unfolding openRegion_def by code_simp+




lemma twoBlocks_results:
  "runLines defaultFormatter twoBlocks =
     [Some (0, ''x'', defaultFormatter), None, None, Some (1, ''if a'', ifOpen),
      Some (- 1, ''end '', defaultFormatter), Some (1, ''if b'', ifOpen),
      Some (- 1, ''end '', defaultFormatter), None]"
  unfolding ifOpen_def by code_simp

lemma twoBlocks_start:
  "startState defaultFormatter twoBlocks = (twoBlocks, defaultFormatter)"
  by code_simp

lemma twoBlocks_range:
  "startIndex defaultFormatter twoBlocks = 0" "endIndex defaultFormatter twoBlocks = 8"
  by (simp_all add: startIndex_def endIndex_def defaultFormatter_def DefaultOptions_def Let_def
      twoBlocks_def)



section \<open>The claims\<close>

subsection \<open>C1: idempotence\<close>










subsection \<open>C2: partial-range isolation\<close>




subsection \<open>C3: placement of the separating blank lines\<close>

text \<open>
  Claim C3: with the separate-blocks option, a blank line is inserted after any line
  whose indent delta is positive (an opener) and before any line whose indent delta is
  negative (a closer), except that an already emitted blank line is never duplicated
  and no blank is inserted around line-comment-only content.

  The code places the blank lines the other way round: before a line with a positive
  delta and after a line with a negative delta (the block as a whole is set off).  In
  the run below no blank line follows the opener \<^verbatim>\<open>if a\<close> and none precedes the closer
  \<^verbatim>\<open>end\<close>; one precedes the opener and one follows the closer.
\<close>

theorem blank_lines_around_blocks:
  "formatWith DefaultOptions [''x'', ''if a'', ''y'', ''end'', ''z'']
     = Inr [''x'', [], ''if a'', ''    y'', ''end'', [], ''z'']"
  by code_simp

text \<open>
  What holds of the code (C3 as amended): the output of the loop over a segment is the
  concatenation, line by line, of what \<open>linesFor\<close> gives for the result of the line and
  the result of the line before it (\<open>separated\<close>), where the results are those of
  formatting the lines in order, each in the state the line before left with the offset
  added to the level, not below 0 (\<open>runLines\<close>, whose equations are part of the
  statement).  So with the option set an empty line stands before
  a line with a positive offset, unless the line-comment counter is not 0 or the line
  before it in the segment is blank, is a closer or does not exist; an empty line stands
  after a line with a negative offset; and a blank input line gives an empty line only
  directly after a formatted line that is not such a closer, so that a run of blank
  lines gives at most one.  When no formatted line is empty, the output has no two
  adjacent empty lines and does not begin with one.  \<^verbatim>\<open>FormatLines\<close> puts this output
  between the lines before and after the range, without the empty lines at its end when
  the range ends with the file.
\<close>

theorem blank_line_placement:
  "fst (formatSegment f segment [] True) = separated None (runLines f segment) \<and>
   runLines f [] = [] \<and>
   (TrimSpace rawLine = [] \<longrightarrow> runLines f (rawLine # rest) = None # runLines f rest) \<and>
   (TrimSpace rawLine \<noteq> [] \<longrightarrow>
      runLines f (rawLine # rest) =
        (case formatLine f rawLine of (offset, line, f1) \<Rightarrow>
           Some (offset, line, f1\<lparr>ilvl := max 0 (ilvl f1 + offset)\<rparr>)
             # runLines (f1\<lparr>ilvl := max 0 (ilvl f1 + offset)\<rparr>) rest)) \<and>
   (list_all nonEmptyText (runLines f segment) \<longrightarrow>
      noDoubleBlank (fst (formatSegment f segment [] True)) \<and>
      (fst (formatSegment f segment [] True) \<noteq> [] \<longrightarrow> hd (fst (formatSegment f segment [] True)) \<noteq> [])) \<and>
   (startIndex f lines \<noteq> endIndex f lines \<longrightarrow>
      fst (FormatLines f lines) =
        take (startIndex f lines) lines
        @ (let st = startState f (drop (startIndex f lines) (take (endIndex f lines) lines));
               out = separated None (runLines (snd st) (fst st));
               out1 = (if endIndex f lines = length lines then trimTrailingBlank out else out)
           in if out1 = [] then [[]] else out1)
        @ drop (endIndex f lines) lines)"
proof (intro conjI impI)
  show a: "\<And>f segment. fst (formatSegment f segment [] True) = separated None (runLines f segment)"
    using formatSegment_separated[of True None] by (simp add: textBefore_def)
  show "runLines f [] = []" by simp
  show "TrimSpace rawLine = [] \<Longrightarrow> runLines f (rawLine # rest) = None # runLines f rest"
    by simp
  show "TrimSpace rawLine \<noteq> [] \<Longrightarrow> runLines f (rawLine # rest) =
        (case formatLine f rawLine of (offset, line, f1) \<Rightarrow>
           Some (offset, line, f1\<lparr>ilvl := max 0 (ilvl f1 + offset)\<rparr>)
             # runLines (f1\<lparr>ilvl := max 0 (ilvl f1 + offset)\<rparr>) rest)"
    by (simp add: Let_def max_def split: prod.splits)
  assume "list_all nonEmptyText (runLines f segment)"
  from separated_invariant[OF this, of "[]" None]
  show "noDoubleBlank (fst (formatSegment f segment [] True))"
    "fst (formatSegment f segment [] True) \<noteq> [] \<Longrightarrow> hd (fst (formatSegment f segment [] True)) \<noteq> []"
    by (simp_all add: a textBefore_def)
next
  assume ne: "startIndex f lines \<noteq> endIndex f lines"
  obtain seg f0 where st: "startState f (drop (startIndex f lines) (take (endIndex f lines) lines)) = (seg, f0)"
    by (cases "startState f (drop (startIndex f lines) (take (endIndex f lines) lines))") auto
  obtain out f1 where fs: "formatSegment f0 seg [] True = (out, f1)"
    by (cases "formatSegment f0 seg [] True") auto
  have "out = separated None (runLines f0 seg)"
    using formatSegment_separated[of True None f0 seg "[]"] fs by (simp add: textBefore_def)
  with ne st fs show "fst (FormatLines f lines) =
        take (startIndex f lines) lines
        @ (let st = startState f (drop (startIndex f lines) (take (endIndex f lines) lines));
               out = separated None (runLines (snd st) (fst st));
               out1 = (if endIndex f lines = length lines then trimTrailingBlank out else out)
           in if out1 = [] then [[]] else out1)
        @ drop (endIndex f lines) lines"
    by (simp add: FormatLines_def Let_def)
qed

theorem blank_line_placement_witness:
  "list_all nonEmptyText (runLines defaultFormatter twoBlocks) \<and>
   startIndex defaultFormatter twoBlocks \<noteq> endIndex defaultFormatter twoBlocks \<and>
   fst (formatSegment defaultFormatter twoBlocks [] True)
     = [''x'', [], ''if a'', ''end'', [], ''if b'', ''end'', []] \<and>
   noDoubleBlank [''x'', [], ''if a'', ''end'', [], ''if b'', ''end'', []] \<and>
   fst (FormatLines defaultFormatter twoBlocks)
     = [''x'', [], ''if a'', ''end'', [], ''if b'', ''end'']"
proof -
  have s: "separateBlock defaultFormatter" "separateBlock ifOpen"
    "isLineComment defaultFormatter = 0" "isLineComment ifOpen = 0"
    by (simp_all add: ifOpen_def defaultFormatter_def)
  have t: "TrimRight ''x'' line_cutset = ''x''" "TrimRight ''if a'' line_cutset = ''if a''"
    "TrimRight ''if b'' line_cutset = ''if b''" "TrimRight ''end '' line_cutset = ''end''"
    by (simp_all add: TrimRight_def line_cutset_def)
  have n: "list_all nonEmptyText (runLines defaultFormatter twoBlocks)"
    by (simp add: twoBlocks_results nonEmptyText_def t)
  have o: "separated None (runLines defaultFormatter twoBlocks)
      = [''x'', [], ''if a'', ''end'', [], ''if b'', ''end'', []]"
    by (simp add: twoBlocks_results textBefore_def s t)
  have l: "length twoBlocks = 8" by (simp add: twoBlocks_def)
  have tr: "trimTrailingBlank [''x'', [], ''if a'', ''end'', [], ''if b'', ''end'', []]
      = [''x'', [], ''if a'', ''end'', [], ''if b'', ''end'']"
    by (simp add: trimTrailingBlank_def)
  from blank_line_placement[where f = defaultFormatter and segment = twoBlocks and lines = twoBlocks
      and rawLine = "''x''" and rest = "[]"] n
  show ?thesis
    by (simp add: o twoBlocks_range twoBlocks_start l tr del: noDoubleBlank.simps)
      (simp add: twoBlocks_def)
qed

subsection \<open>C4: which quoted string is extracted\<close>

text \<open>
  Claim C4: where both the single-quoted and the double-quoted string pattern match,
  the token extractor selects the shorter-starting (shortest-leftmost) quoted-string
  match of the two, so that a string literal is never split at a quote character of
  the other style inside it.

  The code compares the lengths of the two string tokens (group 2), not where they
  start, and it takes the longer one.  In the text \<open>twoStrings\<close>, a single-quoted
  string of three characters followed by a double-quoted string of five, the
  single-quoted match starts first (nothing stands before it) and the extractor
  returns the double-quoted string, with the single-quoted one in its left rest.
\<close>

lemma twoStrings_single:
  "map (submatch pString twoStrings) [1, 2, 4]
     = [[], [CHR 0x27, CHR ''a'', CHR 0x27], [CHR '' '', CHR 0x22, CHR ''b'', CHR ''c'', CHR ''d'', CHR 0x22]]"
  by code_simp

lemma twoStrings_double:
  "map (submatch pStringDQ twoStrings) [1, 2, 4]
     = [[CHR 0x27, CHR ''a'', CHR 0x27, CHR '' ''], [CHR 0x22, CHR ''b'', CHR ''c'', CHR ''d'', CHR 0x22], []]"
  by code_simp

lemma twoStrings_extracted:
  "fst (extractStringOrComment twoStrings 0)
     = Some ([CHR 0x27, CHR ''a'', CHR 0x27, CHR '' ''], [CHR 0x22, CHR ''b'', CHR ''c'', CHR ''d'', CHR 0x22], [])"
  by code_simp

lemma twoStrings_match: "MatchString pString twoStrings" "MatchString pStringDQ twoStrings"
  by code_simp+

theorem later_string_selected:
  "MatchString pString twoStrings \<and> MatchString pStringDQ twoStrings \<and>
   submatch pString twoStrings 1 = [] \<and>
   submatch pStringDQ twoStrings 1 = [CHR 0x27, CHR ''a'', CHR 0x27, CHR '' ''] \<and>
   fst (extractStringOrComment twoStrings 0)
     = Some ([CHR 0x27, CHR ''a'', CHR 0x27, CHR '' ''],
             [CHR 0x22, CHR ''b'', CHR ''c'', CHR ''d'', CHR 0x22], [])"
  using twoStrings_single twoStrings_double twoStrings_extracted twoStrings_match by simp

text \<open>
  What holds of the code (C4 as amended): where both patterns match, the extractor
  returns the double-quoted match if its string token is strictly longer than the
  string token of the single-quoted match, and the single-quoted match otherwise.
\<close>

theorem string_tie_break:
  assumes "MatchString pString part" and "MatchString pStringDQ part"
  shows "fst (extractStringOrComment part ic) =
     Some (if length (submatch pString part 2) < length (submatch pStringDQ part 2)
           then (submatch pStringDQ part 1, submatch pStringDQ part 2, submatch pStringDQ part 4)
           else (submatch pString part 1, submatch pString part 2, submatch pString part 4))"
  using assms
  by (auto simp: extractStringOrComment_def MatchString_def submatch_def Let_def)

theorem string_tie_break_witness:
  "MatchString pString twoStrings \<and> MatchString pStringDQ twoStrings \<and>
   fst (extractStringOrComment twoStrings 7) =
     Some (submatch pStringDQ twoStrings 1, submatch pStringDQ twoStrings 2,
           submatch pStringDQ twoStrings 4)"
  using string_tie_break[OF twoStrings_match, of 7] twoStrings_single twoStrings_double
    twoStrings_match
  by simp

subsection \<open>C5: the dangling closer\<close>

text \<open>
  Claim C5: every line that matches the end-family closer pattern and is processed
  while both depth stacks are empty and the running indent level is positive is
  treated as a closer of one step whose reduction applies to the following lines only:
  the closer line itself is emitted at the current running indent; and processing
  never fails.

  This holds of the lines that reach the closer rule, not of every line the pattern
  matches: the rules tried before it take the line while lines are being ignored,
  inside a block comment, while a matrix or cell region is open, and when the line
  itself leaves a bracket open.  The line \<^verbatim>\<open>end [\<close> matches the closer pattern; processed
  at level 1 with empty stacks it is emitted with indent delta 0 and opens a matrix
  region.
\<close>

theorem closer_taken_by_matrix_rule:
  "MatchString ctrlEnd ''end ['' \<and> istep insideBlock = [] \<and> fstep insideBlock = [] \<and>
   0 < ilvl insideBlock \<and>
   formatLine insideBlock ''end ['' = (0, ''    end ['', insideBlock\<lparr>matrix := 5\<rparr>)"
proof -
  have "MatchString ctrlEnd ''end [''" by code_simp
  moreover have "formatLine insideBlock ''end ['' = (0, ''    end ['', insideBlock\<lparr>matrix := 5\<rparr>)"
    unfolding insideBlock_def by code_simp
  ultimately show ?thesis by (simp add: insideBlock_def defaultFormatter_def)
qed

text \<open>
  What holds of the code (C5 as amended): let a line match the closer pattern and let
  it be processed while no lines are being ignored, outside a block comment, with no
  matrix or cell region open, and let the line, without its strings and comments,
  have as many opening as closing brackets of either kind.  If both depth stacks are
  empty and the level is positive, the indent delta is \<open>-1\<close>, the line is emitted at the
  current indent (\<^verbatim>\<open>f.indent(0)\<close>) as the closer keyword, a space and the normalized
  rest, the level and the stacks are as before (the driver then lowers the level for
  the following lines), and a result is returned.  The two comment counters are
  bounded as in every state the engine reaches.
\<close>

theorem dangling_closer:
  assumes m: "MatchString ctrlEnd line"
    and ign: "ignoreLines f \<le> 0"
    and bc: "isBlockComment f \<le> 1"
    and lc: "isLineComment f \<le> 2"
    and mat: "matrix f = 0" and cel: "cell f = 0"
    and bal1: "Count (fst (cleanLineFromStringsAndComments line 0)) (CHR ''['')
             = Count (fst (cleanLineFromStringsAndComments line 0)) (CHR '']'')"
    and bal2: "Count (fst (cleanLineFromStringsAndComments line 0)) (CHR ''{'')
             = Count (fst (cleanLineFromStringsAndComments line 0)) (CHR ''}'')"
    and st: "istep f = []" "fstep f = []" and lvl: "0 < ilvl f"
  shows "\<exists>f'. formatLine f line =
            (- 1,
             indent f' 0 @ submatch ctrlEnd line 2 @ '' ''
               @ TrimSpace (fst (format (operatorSep f) (submatch ctrlEnd line 4) 0)),
             f')
          \<and> ilvl f' = ilvl f \<and> istep f' = [] \<and> fstep f' = []"
proof -
  from m obtain m' where m': "FindStringSubmatch ctrlEnd line = Some m'"
    by (auto simp: MatchString_def)
  have sm: "submatch ctrlEnd line 2 = grp m' 2" "submatch ctrlEnd line 4 = grp m' 4"
    using m' by (simp_all add: submatch_def)
  note ex = ctrlEnd_excludes[OF m']
  define f1 where "f1 = continuationState (commentState f line) line"
  have cs: "isBlockComment (commentState f line) \<le> 0" "isLineComment (commentState f line) \<noteq> 2"
    using ex(1-3) bc lc by (auto simp: commentState_def Let_def)
  have f1: "isBlockComment f1 \<le> 0" "isLineComment f1 \<noteq> 2" "matrix f1 = 0" "cell f1 = 0"
    "istep f1 = []" "fstep f1 = []" "ilvl f1 = ilvl f" "operatorSep f1 = operatorSep f"
    using cs mat cel st by (simp_all add: f1_def)
  have fl: "formatLine f line = codeLine f1 line"
    using ign f1(1,2) by (simp add: formatLine_def f1_def Let_def)
  define f2 where "f2 = f1\<lparr>isComment := snd (cleanLineFromStringsAndComments line (isComment f1))\<rparr>"
  have mm: "multilineMatrix f1 line = (0, f2)"
    using cellIndent_balanced[OF bal1, of f1 "matrix f1"] f1(3)
    by (simp add: multilineMatrix_def f2_def)
  define f3 where "f3 = f2\<lparr>isComment := snd (cleanLineFromStringsAndComments line (isComment f2))\<rparr>"
  have ca: "cellArray f2 line = (0, f3)"
    using cellIndent_balanced[OF bal2, of f2 "cell f2"] f1(4)
    by (simp add: cellArray_def f3_def f2_def)
  have cl: "codeLine f1 line = statementLine f3 line"
    using ex(4) mm ca f1(3,4) by (simp add: codeLine_def f2_def)
  have f3: "istep f3 = []" "fstep f3 = []" "ilvl f3 = ilvl f" "operatorSep f3 = operatorSep f"
    using f1 by (simp_all add: f3_def f2_def)
  have cb: "closeBlock f3 = (1, 0, f3)"
    using f3 lvl by (simp add: closeBlock_def)
  obtain t ic where fm: "format (operatorSep f) (grp m' 4) (isComment f3) = (t, ic)"
    by (cases "format (operatorSep f) (grp m' 4) (isComment f3)")
  have t: "t = fst (format (operatorSep f) (grp m' 4) 0)"
    using format_fst[of "operatorSep f" "grp m' 4" "isComment f3" 0] fm by simp
  have sl: "statementLine f3 line =
      (- 1, indent f3 0 @ grp m' 2 @ '' '' @ TrimSpace t, f3\<lparr>isComment := ic\<rparr>)"
    using ex(5-9) m' cb fm f3(4) by (simp add: statementLine_def keywordLine_def fmt_def)
  have "indent f3 0 = indent (f3\<lparr>isComment := ic\<rparr>) 0" by (simp add: indent_def)
  with fl cl sl t f3 sm show ?thesis by auto
qed

theorem dangling_closer_witness:
  "MatchString ctrlEnd ''end'' \<and> ignoreLines insideBlock \<le> 0 \<and> isBlockComment insideBlock \<le> 1 \<and>
   isLineComment insideBlock \<le> 2 \<and> matrix insideBlock = 0 \<and> cell insideBlock = 0 \<and>
   Count (fst (cleanLineFromStringsAndComments ''end'' 0)) (CHR ''['')
     = Count (fst (cleanLineFromStringsAndComments ''end'' 0)) (CHR '']'') \<and>
   Count (fst (cleanLineFromStringsAndComments ''end'' 0)) (CHR ''{'')
     = Count (fst (cleanLineFromStringsAndComments ''end'' 0)) (CHR ''}'') \<and>
   istep insideBlock = [] \<and> fstep insideBlock = [] \<and> 0 < ilvl insideBlock \<and>
   (\<exists>f'. formatLine insideBlock ''end'' =
            (- 1,
             indent f' 0 @ submatch ctrlEnd ''end'' 2 @ '' ''
               @ TrimSpace (fst (format (operatorSep insideBlock) (submatch ctrlEnd ''end'' 4) 0)),
             f')
          \<and> ilvl f' = ilvl insideBlock \<and> istep f' = [] \<and> fstep f' = [])"
proof -
  have s: "ignoreLines insideBlock \<le> 0" "isBlockComment insideBlock \<le> 1"
    "isLineComment insideBlock \<le> 2" "matrix insideBlock = 0" "cell insideBlock = 0"
    "istep insideBlock = []" "fstep insideBlock = []" "0 < ilvl insideBlock"
    by (simp_all add: insideBlock_def defaultFormatter_def)
  from dangling_closer[OF end_matches s(1-5) end_without_brackets s(6-8)]
  show ?thesis using end_matches s end_without_brackets by simp
qed

subsection \<open>C6: a function block and its closer\<close>

text \<open>
  Claim C6: for every function or classdef block whose opener and matching closer are
  both in the formatted range, the indent delta at the closer is the negative of the
  indent step the opener contributed; in particular, in the mode \<^verbatim>\<open>classic\<close>, where every
  function opener contributes 0, and for the outermost function in the mode
  \<^verbatim>\<open>only_nested_functions\<close>, the matching closer contributes 0 as well.

  The control-block rules push the step they return (1, and 2 for \<^verbatim>\<open>switch\<close>); the
  function rule pushes 1 whatever offset it returns.  In the mode \<^verbatim>\<open>classic\<close> the opener
  \<^verbatim>\<open>function f\<close> has delta 0 and its closer has delta \<open>-1\<close>, and the closer is emitted one
  step to the left of its opener: formatted from level 1, the closer stands in column
  0 and so does the line after it.
\<close>

lemma classic_function_deltas:
  "(case formatLine (classicFormatter\<lparr>ilvl := 1\<rparr>) ''function f'' of
      (o1, t1, f1) \<Rightarrow> (o1, t1, fst (formatLine f1 ''end''), fst (snd (formatLine f1 ''end''))))
   = (0, ''    function f'', - 1, ''end '')"
  unfolding classicFormatter_def defaultFormatter_def by code_simp

lemma classic_function_lines:
  "formatWith (DefaultOptions\<lparr>IndentMode := ''classic''\<rparr>)
     [''    function f'', ''    x'', ''    end'', ''    y'']
   = Inr [''    function f'', ''    x'', ''end'', [], ''y'']"
  by code_simp

theorem classic_closer_delta:
  "(case formatLine (classicFormatter\<lparr>ilvl := 1\<rparr>) ''function f'' of
      (o1, t1, f1) \<Rightarrow> (o1, t1, fst (formatLine f1 ''end''), fst (snd (formatLine f1 ''end''))))
   = (0, ''    function f'', - 1, ''end '') \<and>
   formatWith (DefaultOptions\<lparr>IndentMode := ''classic''\<rparr>)
     [''    function f'', ''    x'', ''    end'', ''    y'']
   = Inr [''    function f'', ''    x'', ''end'', [], ''y'']"
  using classic_function_deltas classic_function_lines by simp

subsection \<open>C7: matrix and cell continuation indent\<close>

text \<open>
  Claim C7: for every line whose net count of unclosed \<^verbatim>\<open>[\<close> (matrix) or \<^verbatim>\<open>{\<close> (cell)
  brackets is positive, a tracked region opens whose continuation indent in the aligned
  mode equals the column immediately after the last non-whitespace character preceding
  the opening bracket, plus one, and in the simple mode is a single indent step; every
  line while the region is open (or that closes it) is emitted at the region's tracked
  indent rather than the running structural indent, and is still passed through the
  spacing normalizer.

  Two parts do not hold as stated.  The aligned indent is the length of the text between
  the leading white space and the last opening bracket of the input line, plus one:
  white space before the bracket counts, so two lines with the same last non-blank
  character before the bracket, which are emitted as the same text, get different
  continuation indents (5 and 7 below).  And a continuation line is emitted at the
  running indent plus the tracked indent, not instead of it (9 blanks inside a block of
  level 1 below).
\<close>

theorem continuation_indent_counts_blanks:
  "formatWith DefaultOptions [''A = [1'', ''2]''] = Inr [''A = [1'', ''     2]''] \<and>
   formatWith DefaultOptions [''A =   [1'', ''2]''] = Inr [''A = [1'', ''       2]''] \<and>
   formatWith DefaultOptions [''if x'', ''A = [1'', ''2]'', ''end'']
     = Inr [''if x'', ''    A = [1'', ''         2]'', ''end'']"
  by (intro conjI; code_simp)

text \<open>
  What holds of the code (C7 as amended), for a line that reaches the code rules (no
  ignore count pending, no comment line, no block comment delimiter, not an ignored
  control line) and whose cleaned text \<open>c\<close> has no newline character: when a matrix
  region is open or the counts of \<^verbatim>\<open>[\<close> and \<^verbatim>\<open>]\<close> in \<open>c\<close> differ, the line is emitted with
  offset 0 as the running indent plus the indent tracked before the line, followed by the
  trimmed normalized line, and the tracked matrix indent becomes \<open>regionIndent\<close>: with
  more \<^verbatim>\<open>[\<close> than \<^verbatim>\<open>]\<close>, one plus the length of \<open>c\<close> between its leading white space and
  its last \<^verbatim>\<open>[\<close> in the aligned mode and the indent width in the simple mode; with more
  \<^verbatim>\<open>]\<close> than \<^verbatim>\<open>[\<close>, zero; the old value otherwise.  When no matrix region is open and the
  square brackets balance, the same holds of the cell region with \<^verbatim>\<open>{\<close> and \<^verbatim>\<open>}\<close>.  The
  running level does not change.
\<close>

theorem tracked_region:
  assumes "ignoreLines f \<le> 0" "isBlockComment f \<le> 1" "isLineComment f \<le> 2"
    and "\<not> MatchString lineComment line" "\<not> MatchString blockCommentOpen line"
    and "\<not> MatchString blockCommentClose line" and ci: "\<not> MatchString ctrlIgnore line"
    and nl: "CHR 0x0A \<notin> set (fst (cleanLineFromStringsAndComments line 0))"
    and c: "c = fst (cleanLineFromStringsAndComments line 0)"
  shows "(matrix f \<noteq> 0 \<or> Count c (CHR ''['') \<noteq> Count c (CHR '']'') \<longrightarrow>
           (\<exists>f'. formatLine f line =
                    (0, indent f' (matrix f) @ TrimSpace (fst (format (operatorSep f) line 0)), f')
                  \<and> matrix f' = regionIndent f c (CHR ''['') (CHR '']'') (matrix f)
                  \<and> ilvl f' = ilvl f)) \<and>
         (matrix f = 0 \<and> Count c (CHR ''['') = Count c (CHR '']'') \<and>
          (cell f \<noteq> 0 \<or> Count c (CHR ''{'') \<noteq> Count c (CHR ''}'')) \<longrightarrow>
           (\<exists>f'. formatLine f line =
                    (0, indent f' (cell f) @ TrimSpace (fst (format (operatorSep f) line 0)), f')
                  \<and> cell f' = regionIndent f c (CHR ''{'') (CHR ''}'') (cell f)
                  \<and> ilvl f' = ilvl f))"
proof -
  define f1 where "f1 = continuationState (commentState f line) line"
  have fl: "formatLine f line = codeLine f1 line"
    unfolding f1_def by (rule code_line_reached) fact+
  have f1: "matrix f1 = matrix f" "cell f1 = cell f" "ilvl f1 = ilvl f"
    "operatorSep f1 = operatorSep f" "matrixIndent f1 = matrixIndent f" "iwidth f1 = iwidth f"
    by (simp_all add: f1_def)
  have ri: "\<And>g o1 o2 old. matrixIndent g = matrixIndent f \<Longrightarrow> iwidth g = iwidth f \<Longrightarrow>
      regionIndent g c o1 o2 old = regionIndent f c o1 o2 old"
    by (simp add: regionIndent_def)
  define f2 where "f2 = f1\<lparr>isComment := snd (cleanLineFromStringsAndComments line (isComment f1)),
      matrix := regionIndent f c (CHR ''['') (CHR '']'') (matrix f)\<rparr>"
  have mm: "multilineMatrix f1 line = (Count c (CHR ''['') - Count c (CHR '']''), f2)"
    using cellIndent_value[OF nl, of "CHR ''[''" f1 "CHR '']''" "matrix f1"] f1 c ri[of f1]
    by (simp add: multilineMatrix_def f2_def is_space_def)
  show ?thesis
  proof (intro conjI impI)
    assume a: "matrix f \<noteq> 0 \<or> Count c (CHR ''['') \<noteq> Count c (CHR '']'')"
    let ?f3 = "f2\<lparr>isComment := snd (format (operatorSep f2) line (isComment f2))\<rparr>"
    have o2: "operatorSep f2 = operatorSep f" using f1 by (simp add: f2_def)
    have "codeLine f1 line =
        (case fmt f2 line of (t, f3) \<Rightarrow> (0, indent f2 (matrix f1) @ TrimSpace t, f3))"
    proof (cases "matrix f = 0")
      case True
      with a have "Count c (CHR ''['') - Count c (CHR '']'') \<noteq> 0" by simp
      with ci mm show ?thesis by (simp add: codeLine_def)
    next
      case False
      with ci mm f1(1) show ?thesis by (simp add: codeLine_def)
    qed
    then have "codeLine f1 line =
        (0, indent f2 (matrix f) @ TrimSpace (fst (format (operatorSep f) line 0)), ?f3)"
      by (simp add: fmt_text o2 f1(1))
    moreover have "indent f2 (matrix f) = indent ?f3 (matrix f)" by (simp add: indent_def)
    moreover have "matrix ?f3 = regionIndent f c (CHR ''['') (CHR '']'') (matrix f)"
      "ilvl ?f3 = ilvl f" using f1 by (simp_all add: f2_def)
    ultimately show "\<exists>f'. formatLine f line =
                    (0, indent f' (matrix f) @ TrimSpace (fst (format (operatorSep f) line 0)), f')
                  \<and> matrix f' = regionIndent f c (CHR ''['') (CHR '']'') (matrix f)
                  \<and> ilvl f' = ilvl f"
      using fl by (intro exI[of _ ?f3]) simp
  next
    assume a: "matrix f = 0 \<and> Count c (CHR ''['') = Count c (CHR '']'') \<and>
          (cell f \<noteq> 0 \<or> Count c (CHR ''{'') \<noteq> Count c (CHR ''}''))"
    define g where "g = f2\<lparr>isComment := snd (cleanLineFromStringsAndComments line (isComment f2)),
      cell := regionIndent f c (CHR ''{'') (CHR ''}'') (cell f)\<rparr>"
    have g2: "cell f2 = cell f" "matrixIndent f2 = matrixIndent f" "iwidth f2 = iwidth f"
      "operatorSep f2 = operatorSep f" "ilvl f2 = ilvl f"
      using f1 by (simp_all add: f2_def)
    have ca: "cellArray f2 line = (Count c (CHR ''{'') - Count c (CHR ''}''), g)"
      using cellIndent_value[OF nl, of "CHR ''{''" f2 "CHR ''}''" "cell f2"] g2 c ri[of f2]
      by (simp add: cellArray_def g_def is_space_def)
    let ?f3 = "g\<lparr>isComment := snd (format (operatorSep g) line (isComment g))\<rparr>"
    have og: "operatorSep g = operatorSep f" using g2 by (simp add: g_def)
    have m2: "matrix f2 = 0" using a f1 by (simp add: f2_def regionIndent_def)
    have d0: "Count c (CHR ''['') - Count c (CHR '']'') = 0" "matrix f1 = 0"
      using a f1(1) by simp_all
    have cl0: "codeLine f1 line =
        (case cellArray f2 line of (diff', f2a) \<Rightarrow>
           if diff' \<noteq> 0 \<or> cell f2 \<noteq> 0 then
             (case fmt f2a line of (t, f3) \<Rightarrow> (0, indent f2a (cell f2) @ TrimSpace t, f3))
           else statementLine f2a line)"
      using ci mm d0 by (simp add: codeLine_def)
    have "codeLine f1 line =
        (case fmt g line of (t, f3) \<Rightarrow> (0, indent g (cell f2) @ TrimSpace t, f3))"
    proof (cases "cell f = 0")
      case True
      with a have "Count c (CHR ''{'') - Count c (CHR ''}'') \<noteq> 0" by simp
      with ca show ?thesis unfolding cl0 by simp
    next
      case False
      with ca g2(1) show ?thesis unfolding cl0 by simp
    qed
    then have "codeLine f1 line =
        (0, indent g (cell f) @ TrimSpace (fst (format (operatorSep f) line 0)), ?f3)"
      by (simp add: fmt_text og g2(1))
    moreover have "indent g (cell f) = indent ?f3 (cell f)" by (simp add: indent_def)
    moreover have "cell ?f3 = regionIndent f c (CHR ''{'') (CHR ''}'') (cell f)"
      "ilvl ?f3 = ilvl f" using g2 by (simp_all add: g_def)
    ultimately show "\<exists>f'. formatLine f line =
                    (0, indent f' (cell f) @ TrimSpace (fst (format (operatorSep f) line 0)), f')
                  \<and> cell f' = regionIndent f c (CHR ''{'') (CHR ''}'') (cell f)
                  \<and> ilvl f' = ilvl f"
      using fl by (intro exI[of _ ?f3]) simp
  qed
qed

theorem tracked_region_witness:
  "\<not> MatchString lineComment ''A =   [1'' \<and> \<not> MatchString blockCommentOpen ''A =   [1'' \<and>
   \<not> MatchString blockCommentClose ''A =   [1'' \<and> \<not> MatchString ctrlIgnore ''A =   [1'' \<and>
   (\<exists>f'. formatLine defaultFormatter ''A =   [1'' = (0, indent f' 0 @ ''A = [1'', f')
       \<and> matrix f' = 7 \<and> ilvl f' = 0) \<and>
   (\<exists>f'. formatLine openRegion ''2]'' = (0, indent f' 5 @ ''2]'', f')
       \<and> matrix f' = 0 \<and> ilvl f' = 1) \<and>
   (\<exists>f'. formatLine defaultFormatter ''c = {1'' = (0, indent f' 0 @ ''c = {1'', f')
       \<and> cell f' = 5 \<and> ilvl f' = 0)"
proof -
  have d: "ignoreLines defaultFormatter \<le> 0" "isBlockComment defaultFormatter \<le> 1"
    "isLineComment defaultFormatter \<le> 2" "matrix defaultFormatter = 0" "cell defaultFormatter = 0"
    "ilvl defaultFormatter = 0" "operatorSep defaultFormatter = 1/2"
    by (simp_all add: defaultFormatter_def)
  have r: "ignoreLines openRegion \<le> 0" "isBlockComment openRegion \<le> 1"
    "isLineComment openRegion \<le> 2" "matrix openRegion = 5"
    "ilvl openRegion = 1" "operatorSep openRegion = 1/2"
    by (simp_all add: openRegion_def defaultFormatter_def)
  have a: "\<exists>f'. formatLine defaultFormatter ''A =   [1'' = (0, indent f' 0 @ ''A = [1'', f')
       \<and> matrix f' = 7 \<and> ilvl f' = 0"
    using tracked_region[of defaultFormatter "''A =   [1''" "''A =   [1''", OF d(1-3) region_lines_code(1-4)]
    by (simp add: region_lines_clean region_lines_text region_lines_indent d)
  have b: "\<exists>f'. formatLine openRegion ''2]'' = (0, indent f' 5 @ ''2]'', f')
       \<and> matrix f' = 0 \<and> ilvl f' = 1"
    using tracked_region[of openRegion "''2]''" "''2]''", OF r(1-3) region_lines_code(5-8)]
    by (simp add: region_lines_clean region_lines_text region_lines_indent r)
  have c: "\<exists>f'. formatLine defaultFormatter ''c = {1'' = (0, indent f' 0 @ ''c = {1'', f')
       \<and> cell f' = 5 \<and> ilvl f' = 0"
    using tracked_region[of defaultFormatter "''c = {1''" "''c = {1''", OF d(1-3) region_lines_code(9-12)]
    by (simp add: region_lines_clean region_lines_text region_lines_indent d)
  from a b c region_lines_code(1-4) show ?thesis by (intro conjI)
qed

subsection \<open>C8: the ignore directive\<close>

text \<open>
  Claim C8: a comment line that contains \<^verbatim>\<open>formatter ignore N\<close>, where the count \<open>N\<close> is
  optional (1 when absent, and at least 1), sets the ignore counter to \<open>max N 1\<close>; while
  the counter is positive each following line is emitted with its outer white space
  trimmed and otherwise unchanged, and decrements the counter.

  The source provides for the absent count (\<^verbatim>\<open>f.ignoreLines = 1\<close> when the group is
  empty), but its pattern \<^verbatim>\<open>formatter\s+ignore\s+(\d*)\<close> asks for white space after
  \<^verbatim>\<open>ignore\<close>, and the lines the formatter is given have lost their line terminators.  A
  directive without a count that ends its line is therefore not recognized: the next
  line is normalized.  With a space after \<^verbatim>\<open>ignore\<close> the same directive works.
\<close>

lemma directive_at_line_end:
  "formatWith DefaultOptions [''% formatter ignore'', ''x=1'']
     = Inr [''% formatter ignore'', ''x = 1'']"
  by code_simp

lemma directive_with_space:
  "formatWith DefaultOptions [''% formatter ignore '', ''x=1'']
     = Inr [''% formatter ignore'', ''x=1'']"
  by code_simp

theorem directive_without_count:
  "formatWith DefaultOptions [''% formatter ignore'', ''x=1'']
     = Inr [''% formatter ignore'', ''x = 1''] \<and>
   formatWith DefaultOptions [''% formatter ignore '', ''x=1'']
     = Inr [''% formatter ignore'', ''x=1'']"
  using directive_at_line_end directive_with_space by simp

subsection \<open>C9: termination of the normalizer\<close>

text \<open>
  Claim C9: no rule of the token extractor matches and returns an unchanged remainder
  (every successful extraction makes progress), so the recursive normalizer \<^verbatim>\<open>format\<close>
  terminates on every text, and a formatting run over a finite line sequence
  terminates.

  Both remainders of a successful extraction differ from the text, and their measure
  \<open>mu\<close> (twice the number of characters that are not spaces, plus the length) is
  smaller.  The recursion of \<^verbatim>\<open>format\<close> therefore ends: the recursion bounded by the depth
  \<open>mu part + 1\<close> returns a result, the one of \<open>format\<close>.  (\<open>format\<close> and
  \<open>cleanLineFromStringsAndComments\<close> are defined above by exactly this argument; the
  loops of \<^verbatim>\<open>FormatLines\<close> run once over a finite list.)
\<close>

theorem extractor_progress:
  "(\<forall>left mid right ic'.
      extract_part osep part ic = (Some (left, mid, right), ic') \<longrightarrow>
        left \<noteq> part \<and> right \<noteq> part \<and> mu left < mu part \<and> mu right < mu part) \<and>
   format_fuel (Suc (mu part)) osep part ic = Some (format osep part ic)"
  using extract_part_progress[of osep part ic] format_fuel_enough[of part osep ic]
  by (auto dest: mu_less_neq)

lemma assignment_token: "extract_part (1/2) ''a=1'' 0 = (Some (''a '', ''='', '' 1''), 0)"
  by code_simp

lemma assignment_normalized: "format (1/2) ''a=1'' 0 = (''a = 1'', 0)"
  by code_simp

theorem extractor_progress_witness:
  "extract_part (1/2) ''a=1'' 0 = (Some (''a '', ''='', '' 1''), 0) \<and>
   ''a '' \<noteq> ''a=1'' \<and> '' 1'' \<noteq> ''a=1'' \<and> mu ''a '' < mu ''a=1'' \<and> mu '' 1'' < mu ''a=1'' \<and>
   format_fuel (Suc (mu ''a=1'')) (1/2) ''a=1'' 0 = Some (''a = 1'', 0)"
  using extractor_progress[of "1/2" "''a=1''" 0] assignment_token assignment_normalized
  by auto

subsection \<open>C10: an ignored line changes nothing but the counter\<close>

text \<open>
  Claim C10: while the ignore counter is positive, processing a line changes no engine
  state other than the counter, which it decrements (the two depth stacks, the matrix
  and cell indents, the block-comment flag, the line-comment counter and the long-line
  and continuation flags stay as they are, whatever the line contains), and the line
  is emitted as the current indent followed by its content with the outer white space
  trimmed.
\<close>

theorem ignored_line_frame:
  "0 < ignoreLines f \<Longrightarrow>
     formatLine f line = (0, indent f 0 @ TrimSpace line, f\<lparr>ignoreLines := ignoreLines f - 1\<rparr>)"
  by (simp add: formatLine_def)

theorem ignored_line_frame_witness:
  "0 < ignoreLines (insideBlock\<lparr>ignoreLines := 2\<rparr>) \<and>
   formatLine (insideBlock\<lparr>ignoreLines := 2\<rparr>) ''  %{  '' =
     (0, ''    %{'', insideBlock\<lparr>ignoreLines := 1\<rparr>)"
  using ignored_line_frame[of "insideBlock\<lparr>ignoreLines := 2\<rparr>" "''  %{  ''"]
  by (simp add: insideBlock_def defaultFormatter_def indent_def TrimSpace_def TrimRight_def
      TrimLeftSet_def space_cutset_def Repeat_def eval_nat_numeral)

end
